theory Spec2Isabelle
  imports Main "HOL-Library.AList" "HOL-Library.Multiset" "HOL-Library.Code_Target_Nat"
    "HOL-Library.Product_Lexorder"
begin

section \<open>Data model\<close>

text \<open>
  The interfaces of the scheduler. Field names follow the source; where two interfaces
  share a field name the owner is prefixed (\<open>ud_\<close> for UnitData and the entries of
  FilteredCourseList, which have the same shape, \<open>st_\<close> for ScheduledTime, \<open>u_\<close> for
  the unit objects built by filterCourseList). The field \<open>id\<close> of Course is \<open>courseId\<close>.
  Strings are lists of 8-bit characters: the model covers the texts whose code units
  are all below 256.
\<close>

record Course =
  courseId :: string
  unitCode :: string
  unitName :: string
  classType :: string
  activity :: string
  day :: string
  time :: string
  room :: string
  teachingStaff :: string

record UnitData =
  ud_unitName :: string
  ud_courses :: "Course list"

text \<open>
  A Date is its time value: \<open>None\<close> is the Invalid Date (time value NaN), \<open>Some t\<close> is
  \<open>t\<close> milliseconds after local midnight of 1970-01-01 (every Date of the scheduler is
  built on that day, so the constant offset of the local time zone is left out).
\<close>

type_synonym Date = "nat option"

record ScheduledTime =
  st_start :: Date
  st_end :: Date
  st_unitCode :: string
  st_activity :: string

text \<open>
  An object with string keys is the list of its own properties in insertion order:
  reading a key is \<open>map_of\<close>, assigning one is \<open>AList.update\<close> (in place for a key
  that exists, at the end for a new one). What an object inherits from its prototype is
  written out where the code can meet it: in the grouping by activity tag
  (\<open>objectPrototypeKeys\<close>) and in the schedule that the search fills (the key
  \<open>__proto__\<close> of \<open>finalSchedule\<close>).
\<close>

type_synonym 'v obj = "(string \<times> 'v) list"

type_synonym CourseList = "UnitData obj"
type_synonym CourseTimes = "ScheduledTime list obj"
type_synonym FilteredCourseList = "UnitData obj"

record ActivityGroup =
  activityType :: string
  ag_courses :: "Course list"

record Unit =
  u_unitCode :: string
  u_unitName :: string
  u_activities :: "ActivityGroup list"

text \<open>
  What the code throws: the \<open>Error\<close> of convertTo24Hour, with the text it was given,
  and the TypeError of the runtime (a property read on \<open>undefined\<close>, a call of something
  that is no function, an iteration over something not iterable).
\<close>

datatype error = InvalidTimeFormat string | TypeError

section \<open>Time texts\<close>

definition isWhiteSpace :: "char \<Rightarrow> bool" where
  \<comment> \<open>The white space and line terminators \<open>String.prototype.trim\<close> removes, as far as
      they are 8-bit characters: TAB, LF, VT, FF, CR, SP, NBSP.\<close>
  "isWhiteSpace c \<longleftrightarrow> c \<in> set [char_of (9::nat), char_of (10::nat), char_of (11::nat),
     char_of (12::nat), char_of (13::nat), CHR '' '', char_of (160::nat)]"

definition trim :: "string \<Rightarrow> string" where
  "trim s = rev (dropWhile isWhiteSpace (rev (dropWhile isWhiteSpace s)))"

definition isDigit :: "char \<Rightarrow> bool" where
  \<comment> \<open>The class \<open>\d\<close>.\<close>
  "isDigit c \<longleftrightarrow> c \<in> set ''0123456789''"

definition digitVal :: "char \<Rightarrow> nat" where
  "digitVal c = of_char c - 48"

definition parseInt :: "string \<Rightarrow> nat" where
  \<comment> \<open>\<open>parseInt(s, 10)\<close> on a string of digits.\<close>
  "parseInt s = foldl (\<lambda>acc c. 10 * acc + digitVal c) 0 s"

definition isAmPm :: "char \<Rightarrow> char \<Rightarrow> bool" where
  \<comment> \<open>The alternative \<open>(am|pm)\<close> under the flag \<open>i\<close>.\<close>
  "isAmPm a b \<longleftrightarrow> a \<in> set ''aApP'' \<and> b \<in> set ''mM''"

definition matchTime :: "string \<Rightarrow> (string \<times> string \<times> string) option" where
  \<comment> \<open>\<open>s.match(/^(\d{1,2}):(\d{2})(am|pm)$/i)\<close>: the three groups, or \<open>None\<close> for null.\<close>
  "matchTime s =
     (case s of
        [h1, c, m1, m2, a, b] \<Rightarrow>
          if isDigit h1 \<and> c = CHR '':'' \<and> isDigit m1 \<and> isDigit m2 \<and> isAmPm a b
          then Some ([h1], [m1, m2], [a, b]) else None
      | [h1, h2, c, m1, m2, a, b] \<Rightarrow>
          if isDigit h1 \<and> isDigit h2 \<and> c = CHR '':'' \<and> isDigit m1 \<and> isDigit m2 \<and> isAmPm a b
          then Some ([h1, h2], [m1, m2], [a, b]) else None
      | _ \<Rightarrow> None)"

definition isPm :: "string \<Rightarrow> bool" where
  \<comment> \<open>\<open>modifier.toLowerCase() === "pm"\<close>\<close>
  "isPm modifier \<longleftrightarrow> modifier \<in> set [''pm'', ''pM'', ''Pm'', ''PM'']"

definition isAm :: "string \<Rightarrow> bool" where
  \<comment> \<open>\<open>modifier.toLowerCase() === "am"\<close>\<close>
  "isAm modifier \<longleftrightarrow> modifier \<in> set [''am'', ''aM'', ''Am'', ''AM'']"

fun natToString :: "nat \<Rightarrow> string" where
  \<comment> \<open>\<open>n.toString()\<close> for a non-negative integer.\<close>
  "natToString n =
     (if n < 10 then [char_of (48 + n)]
      else natToString (n div 10) @ [char_of (48 + n mod 10)])"

declare natToString.simps [simp del]

definition padStart2 :: "string \<Rightarrow> string" where
  \<comment> \<open>\<open>s.padStart(2, "0")\<close>\<close>
  "padStart2 s = replicate (2 - length s) (CHR ''0'') @ s"

definition convertTo24Hour :: "string \<Rightarrow> error + string" where
  "convertTo24Hour time12h =
     (case matchTime (trim time12h) of
        None \<Rightarrow> Inl (InvalidTimeFormat time12h)
      | Some (hourStr, minuteStr, modifier) \<Rightarrow>
          let hours0 = parseInt hourStr;
              minutes = parseInt minuteStr;
              hours = (if isPm modifier \<and> hours0 \<noteq> 12 then hours0 + 12
                       else if isAm modifier \<and> hours0 = 12 then 0
                       else hours0);
              hoursStr = padStart2 (natToString hours);
              minutesStr = padStart2 (natToString minutes)
          in Inr (hoursStr @ '':'' @ minutesStr @ '':00''))"

text \<open>
  The Date constructor on a text \<open>1970-01-01THH:mm:ss\<close>, the only form the scheduler
  builds. The date-time format of the language reads it as local time; hours 00 to 23
  with minutes and seconds 00 to 59 are in range, and 24:00:00 is the end of the day.
  Out-of-range fields give the Invalid Date, and so does a text that is not of this form
  (the hours of convertTo24Hour can have three digits).
\<close>

definition newDate :: "string \<Rightarrow> Date" where
  "newDate s =
     (if take 11 s = ''1970-01-01T'' then
        (case drop 11 s of
           [h1, h2, c1, m1, m2, c2, s1, s2] \<Rightarrow>
             if isDigit h1 \<and> isDigit h2 \<and> c1 = CHR '':'' \<and> isDigit m1 \<and> isDigit m2 \<and>
                c2 = CHR '':'' \<and> isDigit s1 \<and> isDigit s2
             then
               let h = parseInt [h1, h2]; m = parseInt [m1, m2]; sec = parseInt [s1, s2]
               in if (h \<le> 23 \<and> m \<le> 59 \<and> sec \<le> 59) \<or> (h = 24 \<and> m = 0 \<and> sec = 0)
                  then Some (((h * 60 + m) * 60 + sec) * 1000)
                  else None
             else None
         | _ \<Rightarrow> None)
      else None)"

definition dateLt :: "Date \<Rightarrow> Date \<Rightarrow> bool" where
  \<comment> \<open>\<open>a < b\<close> on two Dates: the comparison of their time values, false when either
      is NaN.\<close>
  "dateLt a b = (case (a, b) of (Some x, Some y) \<Rightarrow> x < y | _ \<Rightarrow> False)"

definition dateGt :: "Date \<Rightarrow> Date \<Rightarrow> bool" where
  \<comment> \<open>\<open>a > b\<close> on two Dates.\<close>
  "dateGt a b = (case (a, b) of (Some x, Some y) \<Rightarrow> x > y | _ \<Rightarrow> False)"

fun splitDash :: "string \<Rightarrow> string \<Rightarrow> string list" where
  \<comment> \<open>\<open>s.split(" - ")\<close>, scanning from the left; the first argument is the piece read
      so far, reversed.\<close>
  "splitDash acc [] = [rev acc]"
| "splitDash acc (c # cs) =
     (if take 3 (c # cs) = '' - '' then rev acc # splitDash [] (drop 2 cs)
      else splitDash (c # acc) cs)"

definition parseCourseTimes :: "string \<Rightarrow> error + Date \<times> Date" where
  \<comment> \<open>The first statements of the candidate loop: the two pieces of the time text (the
      second is \<open>undefined\<close> when there is no separator, and \<open>undefined.trim()\<close> is a
      TypeError; split never returns an empty array), each converted and made a Date, the start first.\<close>
  "parseCourseTimes timeRange =
     (case splitDash [] timeRange of
        [] \<Rightarrow> Inl TypeError
      | startTimeStr # rest \<Rightarrow>
          (case convertTo24Hour startTimeStr of
             Inl err \<Rightarrow> Inl err
           | Inr startStr \<Rightarrow>
               let startTime = newDate (''1970-01-01T'' @ startStr) in
               (case rest of
                  [] \<Rightarrow> Inl TypeError
                | endTimeStr # _ \<Rightarrow>
                    (case convertTo24Hour endTimeStr of
                       Inl err \<Rightarrow> Inl err
                     | Inr endStr \<Rightarrow> Inr (startTime, newDate (''1970-01-01T'' @ endStr))))))"

section \<open>The conflict check\<close>

fun hasTimeConflict :: "ScheduledTime list \<Rightarrow> Date \<Rightarrow> Date \<Rightarrow> bool" where
  \<comment> \<open>The loop over the committed intervals of a day; the first overlap ends it
      (\<open>return true\<close>, or \<open>hasConflict = true; break\<close> in the inlined form).\<close>
  "hasTimeConflict [] startTime endTime = False"
| "hasTimeConflict (scheduled # rest) startTime endTime =
     (if dateLt startTime (st_end scheduled) \<and> dateGt endTime (st_start scheduled) then True
      else hasTimeConflict rest startTime endTime)"

section \<open>Objects\<close>

definition objectPrototypeKeys :: "string list" where
  \<comment> \<open>The property names every object literal inherits from \<open>Object.prototype\<close>:
      reading one of them on an object that has no own property of that name gives
      the inherited function (for \<open>__proto__\<close>, the prototype object).\<close>
  "objectPrototypeKeys =
     [''constructor'', ''__defineGetter__'', ''__defineSetter__'', ''hasOwnProperty'',
      ''__lookupGetter__'', ''__lookupSetter__'', ''isPrototypeOf'', ''propertyIsEnumerable'',
      ''toString'', ''valueOf'', ''__proto__'', ''toLocaleString'']"

definition isArrayIndex :: "string \<Rightarrow> bool" where
  \<comment> \<open>A key that is the canonical decimal text of an integer from 0 to 2^32 - 2.\<close>
  "isArrayIndex k \<longleftrightarrow>
     k \<noteq> [] \<and> list_all isDigit k \<and> (k = ''0'' \<or> hd k \<noteq> CHR ''0'') \<and> parseInt k < 2 ^ 32 - 1"

definition objectEntries :: "'v obj \<Rightarrow> (string \<times> 'v) list" where
  \<comment> \<open>\<open>Object.entries\<close>: the array-index keys in ascending numeric order, then the
      other keys in insertion order.\<close>
  "objectEntries ob =
     sort_key (\<lambda>kv. parseInt (fst kv)) (filter (\<lambda>kv. isArrayIndex (fst kv)) ob)
     @ filter (\<lambda>kv. \<not> isArrayIndex (fst kv)) ob"

section \<open>Preprocessing\<close>

fun groupCourses :: "Course list obj \<Rightarrow> Course list \<Rightarrow> error + Course list obj" where
  \<comment> \<open>The \<open>reduce\<close> that groups the courses of a unit by activity:
      \<open>(groups[course.activity] ||= []).push(course)\<close>. A tag that names an inherited
      property finds that property, which is truthy and has no \<open>push\<close>: a TypeError.\<close>
  "groupCourses groups [] = Inr groups"
| "groupCourses groups (course # rest) =
     (case map_of groups (activity course) of
        Some g \<Rightarrow> groupCourses (AList.update (activity course) (g @ [course]) groups) rest
      | None \<Rightarrow>
          if activity course \<in> set objectPrototypeKeys then Inl TypeError
          else groupCourses (AList.update (activity course) [course] groups) rest)"

definition buildUnit :: "string \<times> UnitData \<Rightarrow> error + Unit" where
  \<comment> \<open>The callback of \<open>Object.entries(courseList).map\<close>.\<close>
  "buildUnit entry =
     (case groupCourses [] (ud_courses (snd entry)) of
        Inl err \<Rightarrow> Inl err
      | Inr activityGroups \<Rightarrow>
          Inr \<lparr>u_unitCode = fst entry,
               u_unitName = ud_unitName (snd entry),
               u_activities =
                 map (\<lambda>g. \<lparr>activityType = fst g, ag_courses = snd g\<rparr>)
                   (objectEntries activityGroups)\<rparr>)"

fun buildUnits :: "(string \<times> UnitData) list \<Rightarrow> error + Unit list" where
  \<comment> \<open>The \<open>map\<close> over the entries, left to right; an exception ends it.\<close>
  "buildUnits [] = Inr []"
| "buildUnits (entry # rest) =
     (case buildUnit entry of
        Inl err \<Rightarrow> Inl err
      | Inr unit \<Rightarrow>
          (case buildUnits rest of
             Inl err \<Rightarrow> Inl err
           | Inr units \<Rightarrow> Inr (unit # units)))"

subsection \<open>Numbers\<close>

text \<open>
  The numbers of the source are IEEE 754 doubles. The two comparators compute with
  array lengths, products of them and differences, so the values that occur are
  integers that are doubles, the two infinities and NaN (\<open>Infinity * 0\<close>,
  \<open>Infinity - Infinity\<close>). A multiplication or subtraction gives the double nearest to
  the exact result, a tie going to the double whose 53-bit significand is even, and an
  infinity when that rounding reaches 2^1024; every integer up to 2^53 in absolute
  value is a double.
\<close>

datatype number = Finite int | PosInfinity | NegInfinity | NaN

fun bitLength :: "nat \<Rightarrow> nat" where
  \<comment> \<open>The number of binary digits of \<open>n\<close>.\<close>
  "bitLength n = (if n = 0 then 0 else Suc (bitLength (n div 2)))"

declare bitLength.simps [simp del]

definition roundNat :: "nat \<Rightarrow> nat" where
  \<comment> \<open>The nearest natural number with at most 53 significant binary digits, a tie
      going to the one whose 53 digits end in 0.\<close>
  "roundNat n =
     (let e = bitLength n - 53;
          q = n div 2 ^ e;
          r = n mod 2 ^ e;
          half = 2 ^ (e - 1)
      in if r > half \<or> (r = half \<and> odd q) then (q + 1) * 2 ^ e else q * 2 ^ e)"

definition roundToDouble :: "int \<Rightarrow> number" where
  \<comment> \<open>The double that an operation with the exact integer result \<open>i\<close> returns.\<close>
  "roundToDouble i =
     (if \<bar>i\<bar> \<le> 2 ^ 53 then Finite i
      else
        let m = roundNat (nat \<bar>i\<bar>)
        in if m \<ge> 2 ^ 1024 then (if i < 0 then NegInfinity else PosInfinity)
           else Finite (if i < 0 then - int m else int m))"

definition signOf :: "number \<Rightarrow> int" where
  "signOf x = (case x of Finite a \<Rightarrow> sgn a | PosInfinity \<Rightarrow> 1 | NegInfinity \<Rightarrow> - 1 | NaN \<Rightarrow> 0)"

definition infinityOf :: "int \<Rightarrow> number" where
  \<comment> \<open>A product with an infinite factor, from the product of the signs: an infinity
      times zero is NaN.\<close>
  "infinityOf s = (if s = 0 then NaN else if s > 0 then PosInfinity else NegInfinity)"

fun numberTimes :: "number \<Rightarrow> number \<Rightarrow> number" where
  \<comment> \<open>\<open>x * y\<close>\<close>
  "numberTimes NaN y = NaN"
| "numberTimes x NaN = NaN"
| "numberTimes (Finite a) (Finite b) = roundToDouble (a * b)"
| "numberTimes x y = infinityOf (signOf x * signOf y)"

fun numberMinus :: "number \<Rightarrow> number \<Rightarrow> number" where
  \<comment> \<open>\<open>x - y\<close>\<close>
  "numberMinus NaN y = NaN"
| "numberMinus x NaN = NaN"
| "numberMinus (Finite a) (Finite b) = roundToDouble (a - b)"
| "numberMinus PosInfinity PosInfinity = NaN"
| "numberMinus NegInfinity NegInfinity = NaN"
| "numberMinus PosInfinity y = PosInfinity"
| "numberMinus NegInfinity y = NegInfinity"
| "numberMinus (Finite a) PosInfinity = NegInfinity"
| "numberMinus (Finite a) NegInfinity = PosInfinity"

fun isPositive :: "number \<Rightarrow> bool" where
  \<comment> \<open>\<open>x > 0\<close>\<close>
  "isPositive (Finite a) = (a > 0)"
| "isPositive PosInfinity = True"
| "isPositive NegInfinity = False"
| "isPositive NaN = False"

definition arrayLength :: "'a list \<Rightarrow> number" where
  \<comment> \<open>\<open>xs.length\<close>: an array has fewer than 2^32 elements, so its length is a double.\<close>
  "arrayLength xs = Finite (int (length xs))"

subsection \<open>The two sorts\<close>

text \<open>
  \<open>Array.prototype.sort\<close> with a comparator: a stable sort, here by insertion from the
  right. \<open>a\<close> stays before \<open>b\<close> unless \<open>cmp a b\<close> is positive; a result that is NaN
  counts as 0. (When the results of the comparator are not those of a total preorder the
  order of the sorted array is left to the implementation; that needs an option count
  that is NaN, which takes an activity with no course, and filterCourseList builds
  none.)
\<close>

fun insertBy :: "('a \<Rightarrow> 'a \<Rightarrow> number) \<Rightarrow> 'a \<Rightarrow> 'a list \<Rightarrow> 'a list" where
  "insertBy cmp x [] = [x]"
| "insertBy cmp x (y # ys) =
     (if \<not> isPositive (cmp x y) then x # y # ys else y # insertBy cmp x ys)"

definition sortBy :: "('a \<Rightarrow> 'a \<Rightarrow> number) \<Rightarrow> 'a list \<Rightarrow> 'a list" where
  "sortBy cmp xs = foldr (insertBy cmp) xs []"

definition optionCount :: "Unit \<Rightarrow> number" where
  \<comment> \<open>\<open>unit.activities.reduce((acc, activity) => acc * activity.courses.length, 1)\<close>:
      every multiplication rounds.\<close>
  "optionCount unit =
     foldl (\<lambda>acc activity. numberTimes acc (arrayLength (ag_courses activity)))
       (Finite 1) (u_activities unit)"

definition compareUnits :: "Unit \<Rightarrow> Unit \<Rightarrow> number" where
  \<comment> \<open>\<open>optionsB - optionsA\<close>\<close>
  "compareUnits unitA unitB = numberMinus (optionCount unitB) (optionCount unitA)"

definition sortUnits :: "Unit list \<Rightarrow> Unit list" where
  \<comment> \<open>\<open>units.sort(...)\<close> of filterCourseList.\<close>
  "sortUnits units = sortBy compareUnits units"

definition compareActivities :: "ActivityGroup \<Rightarrow> ActivityGroup \<Rightarrow> number" where
  \<comment> \<open>\<open>activityA.courses.length - activityB.courses.length\<close>\<close>
  "compareActivities activityA activityB =
     numberMinus (arrayLength (ag_courses activityA)) (arrayLength (ag_courses activityB))"

definition sortActivitiesByCourseOptions :: "ActivityGroup list \<Rightarrow> ActivityGroup list" where
  "sortActivitiesByCourseOptions activities = sortBy compareActivities activities"

section \<open>The search state and its operations\<close>

text \<open>
  The two objects the search mutates. An array of \<open>scheduledTimesPerDay\<close> is known by
  its day key (the five arrays are distinct objects and are never replaced, only pushed
  to and popped from).

  \<open>finalSchedule\<close> is created by the object literal \<open>{}\<close>, so it has the accessor
  \<open>__proto__\<close> that such an object inherits: the assignment
  \<open>finalSchedule['__proto__'] = v\<close> sets the prototype of the object to \<open>v\<close> and adds
  no property, and \<open>finalSchedule['__proto__']\<close> reads the prototype. The list
  \<open>finalSchedule\<close> of the state holds the slots of the object, each under the key that
  reads and writes it: the own properties, in insertion order, and under the key
  \<open>__proto__\<close> the prototype, once the search has set it (until then the prototype is
  Object.prototype). For every key, then, \<open>finalSchedule[k] = v\<close> is \<open>AList.update\<close>,
  and \<open>finalSchedule[k]\<close> reads \<open>map_of\<close>; a key without a slot reads \<open>undefined\<close> or
  something inherited (a function of Object.prototype, Object.prototype itself, the name
  or the course list of the prototype that was set), none of which has \<open>courses\<close>, so
  that the push or pop that follows the read is a TypeError in every case. The properties
  of the object, which \<open>Object.keys\<close>, \<open>Object.entries\<close>, \<open>hasOwnProperty\<close> and
  \<open>JSON.stringify\<close> see, are the slots other than \<open>__proto__\<close>: the list
  \<open>ownProperties\<close>.
\<close>

definition ownProperties :: "'v obj \<Rightarrow> 'v obj" where
  "ownProperties slots = filter (\<lambda>kv. fst kv \<noteq> ''__proto__'') slots"

record SearchState =
  scheduledTimesPerDay :: CourseTimes
  finalSchedule :: FilteredCourseList

definition initializeUnitSchedule :: "Unit \<Rightarrow> SearchState \<Rightarrow> SearchState" where
  \<comment> \<open>\<open>finalSchedule[currentUnit.unitCode] = { unitName: ..., courses: [] }\<close>: a new
      property, or a new value of the property; for the unit code \<open>__proto__\<close>, a new
      prototype and no property (\<open>initialize_own_properties\<close> below).\<close>
  "initializeUnitSchedule currentUnit st =
     st\<lparr>finalSchedule :=
          AList.update (u_unitCode currentUnit)
            \<lparr>ud_unitName = u_unitName currentUnit, ud_courses = []\<rparr> (finalSchedule st)\<rparr>"

definition scheduleCourse ::
  "string \<Rightarrow> Course \<Rightarrow> Date \<Rightarrow> Date \<Rightarrow> string \<Rightarrow> SearchState \<Rightarrow> error + SearchState" where
  \<comment> \<open>The commit: a push to the unit's course list and a push to the day's array. The
      day key stands for the array \<open>scheduledTimes\<close>; a missing entry or array is
      \<open>undefined\<close>, and the property read on it a TypeError.\<close>
  "scheduleCourse code course startTime endTime d st =
     (case map_of (finalSchedule st) code of
        None \<Rightarrow> Inl TypeError
      | Some entry \<Rightarrow>
          (case map_of (scheduledTimesPerDay st) d of
             None \<Rightarrow> Inl TypeError
           | Some scheduledTimes \<Rightarrow>
               Inr (st\<lparr>finalSchedule :=
                         AList.update code (entry\<lparr>ud_courses := ud_courses entry @ [course]\<rparr>)
                           (finalSchedule st),
                       scheduledTimesPerDay :=
                         AList.update d
                           (scheduledTimes @
                              [\<lparr>st_start = startTime, st_end = endTime,
                                st_unitCode = code, st_activity = activity course\<rparr>])
                           (scheduledTimesPerDay st)\<rparr>)))"

definition unscheduleCourse :: "string \<Rightarrow> string \<Rightarrow> SearchState \<Rightarrow> error + SearchState" where
  \<comment> \<open>The uncommit: a pop from each (a pop from an empty array changes nothing).\<close>
  "unscheduleCourse code d st =
     (case map_of (finalSchedule st) code of
        None \<Rightarrow> Inl TypeError
      | Some entry \<Rightarrow>
          (case map_of (scheduledTimesPerDay st) d of
             None \<Rightarrow> Inl TypeError
           | Some scheduledTimes \<Rightarrow>
               Inr (st\<lparr>finalSchedule :=
                         AList.update code (entry\<lparr>ud_courses := butlast (ud_courses entry)\<rparr>)
                           (finalSchedule st),
                       scheduledTimesPerDay :=
                         AList.update d (butlast scheduledTimes) (scheduledTimesPerDay st)\<rparr>)))"

section \<open>The recursive search\<close>

text \<open>
  The search takes the parser of time texts as its first argument: the inlined parser
  \<open>parseCourseTimes\<close> above in filterCourseList, and whatever \<open>parseCourseTime\<close> of the
  helper module computes in the refactored file. \<open>tryCourses\<close> is the loop over the
  candidates of one activity. An exception (\<open>Inl\<close>) ends every call on the stack.

  The source sorts \<open>currentUnit.activities\<close> in place each time it enters the unit; the
  sort is idempotent (\<open>sortBy_idem\<close> below), so sorting the given array on every entry
  computes the same.
\<close>

type_synonym parser = "string \<Rightarrow> error + Date \<times> Date"

function
  scheduleUnits :: "parser \<Rightarrow> nat \<Rightarrow> Unit list \<Rightarrow> SearchState \<Rightarrow> error + bool \<times> SearchState"
and
  scheduleActivities ::
    "parser \<Rightarrow> nat \<Rightarrow> Unit \<Rightarrow> Unit list \<Rightarrow> nat \<Rightarrow> SearchState \<Rightarrow> error + bool \<times> SearchState"
and
  tryCourses ::
    "parser \<Rightarrow> Course list \<Rightarrow> nat \<Rightarrow> Unit \<Rightarrow> Unit list \<Rightarrow> nat \<Rightarrow> SearchState
       \<Rightarrow> error + bool \<times> SearchState"
where
  "scheduleUnits parse unitIndex units st =
     (if unitIndex \<ge> length units then Inr (True, st)
      else
        let currentUnit = units ! unitIndex;
            st1 = initializeUnitSchedule currentUnit st;
            sortedUnit =
              currentUnit\<lparr>u_activities := sortActivitiesByCourseOptions (u_activities currentUnit)\<rparr>
        in scheduleActivities parse 0 sortedUnit units unitIndex st1)"
| "scheduleActivities parse activityIndex currentUnit units unitIndex st =
     (if activityIndex \<ge> length (u_activities currentUnit)
      then scheduleUnits parse (unitIndex + 1) units st
      else tryCourses parse (ag_courses (u_activities currentUnit ! activityIndex))
             activityIndex currentUnit units unitIndex st)"
| "tryCourses parse [] activityIndex currentUnit units unitIndex st = Inr (False, st)"
| "tryCourses parse (course # rest) activityIndex currentUnit units unitIndex st =
     (case parse (time course) of
        Inl err \<Rightarrow> Inl err
      | Inr (startTime, endTime) \<Rightarrow>
          (case map_of (scheduledTimesPerDay st) (day course) of
             None \<Rightarrow> Inl TypeError
           | Some scheduledTimes \<Rightarrow>
               if \<not> hasTimeConflict scheduledTimes startTime endTime then
                 (case scheduleCourse (u_unitCode currentUnit) course startTime endTime
                         (day course) st of
                    Inl err \<Rightarrow> Inl err
                  | Inr st1 \<Rightarrow>
                      (case scheduleActivities parse (activityIndex + 1) currentUnit units
                              unitIndex st1 of
                         Inl err \<Rightarrow> Inl err
                       | Inr (True, st2) \<Rightarrow> Inr (True, st2)
                       | Inr (False, st2) \<Rightarrow>
                           (case unscheduleCourse (u_unitCode currentUnit) (day course) st2 of
                              Inl err \<Rightarrow> Inl err
                            | Inr st3 \<Rightarrow>
                                tryCourses parse rest activityIndex currentUnit units
                                  unitIndex st3)))
               else tryCourses parse rest activityIndex currentUnit units unitIndex st))"
  by pat_completeness auto
termination
  by (relation "measures
        [\<lambda>x. case x of
               Inl (p, u, us, s) \<Rightarrow> 2 * (length us - u)
             | Inr (Inl (p, a, cu, us, u, s)) \<Rightarrow> 2 * (length us - (u + 1)) + 1
             | Inr (Inr (p, cs, a, cu, us, u, s)) \<Rightarrow> 2 * (length us - (u + 1)) + 1,
         \<lambda>x. case x of
               Inl (p, u, us, s) \<Rightarrow> 0
             | Inr (Inl (p, a, cu, us, u, s)) \<Rightarrow> 2 * (length (u_activities cu) - a)
             | Inr (Inr (p, cs, a, cu, us, u, s)) \<Rightarrow>
                 2 * (length (u_activities cu) - (a + 1)) + 1,
         \<lambda>x. case x of
               Inl (p, u, us, s) \<Rightarrow> 0
             | Inr (Inl (p, a, cu, us, u, s)) \<Rightarrow> 0
             | Inr (Inr (p, cs, a, cu, us, u, s)) \<Rightarrow> length cs]")
     auto

declare scheduleUnits.simps [simp del] scheduleActivities.simps [simp del]

definition initialTimes :: CourseTimes where
  "initialTimes = [(''MON'', []), (''TUE'', []), (''WED'', []), (''THU'', []), (''FRI'', [])]"

definition filterCourseList ::
  "CourseList \<Rightarrow> string \<Rightarrow> string \<Rightarrow> string list \<Rightarrow> int \<Rightarrow> bool
     \<Rightarrow> error + FilteredCourseList option" where
  \<comment> \<open>The preferences are only logged. \<open>None\<close> is \<open>null\<close>. The object returned is
      \<open>finalSchedule\<close>, as the list of its slots; its entries are the \<open>ownProperties\<close>
      of that list.\<close>
  "filterCourseList courseList start end' days classesPerDay backToBack =
     (case buildUnits (objectEntries courseList) of
        Inl err \<Rightarrow> Inl err
      | Inr units0 \<Rightarrow>
          let units = sortUnits units0;
              st0 = \<lparr>scheduledTimesPerDay = initialTimes, finalSchedule = []\<rparr>
          in (case scheduleUnits parseCourseTimes 0 units st0 of
                Inl err \<Rightarrow> Inl err
              | Inr (schedulingSuccess, st) \<Rightarrow>
                  if schedulingSuccess then Inr (Some (finalSchedule st)) else Inr None))"

section \<open>The log of a run\<close>

text \<open>
  Ghost instrumentation: the events of a run of the search, in order. The three functions
  follow the three functions of the search call by call; they record the state after
  each initialisation of a unit, each candidate with the state in which it is tried, the
  state after each commit and the state after each uncommit. An exception ends the log.
  The last state of the log of a call is the state the call returns
  (\<open>log_ends_in_result\<close> below).
\<close>

datatype event =
    Entered SearchState
  | Tried Course SearchState
  | Committed SearchState
  | Uncommitted SearchState

function
  logUnits :: "parser \<Rightarrow> nat \<Rightarrow> Unit list \<Rightarrow> SearchState \<Rightarrow> event list"
and
  logActivities :: "parser \<Rightarrow> nat \<Rightarrow> Unit \<Rightarrow> Unit list \<Rightarrow> nat \<Rightarrow> SearchState \<Rightarrow> event list"
and
  logCourses ::
    "parser \<Rightarrow> Course list \<Rightarrow> nat \<Rightarrow> Unit \<Rightarrow> Unit list \<Rightarrow> nat \<Rightarrow> SearchState \<Rightarrow> event list"
where
  "logUnits parse unitIndex units st =
     (if unitIndex \<ge> length units then []
      else
        let currentUnit = units ! unitIndex;
            st1 = initializeUnitSchedule currentUnit st;
            sortedUnit =
              currentUnit\<lparr>u_activities := sortActivitiesByCourseOptions (u_activities currentUnit)\<rparr>
        in Entered st1 # logActivities parse 0 sortedUnit units unitIndex st1)"
| "logActivities parse activityIndex currentUnit units unitIndex st =
     (if activityIndex \<ge> length (u_activities currentUnit)
      then logUnits parse (unitIndex + 1) units st
      else logCourses parse (ag_courses (u_activities currentUnit ! activityIndex))
             activityIndex currentUnit units unitIndex st)"
| "logCourses parse [] activityIndex currentUnit units unitIndex st = []"
| "logCourses parse (course # rest) activityIndex currentUnit units unitIndex st =
     Tried course st #
     (case parse (time course) of
        Inl err \<Rightarrow> []
      | Inr (startTime, endTime) \<Rightarrow>
          (case map_of (scheduledTimesPerDay st) (day course) of
             None \<Rightarrow> []
           | Some scheduledTimes \<Rightarrow>
               if \<not> hasTimeConflict scheduledTimes startTime endTime then
                 (case scheduleCourse (u_unitCode currentUnit) course startTime endTime
                         (day course) st of
                    Inl err \<Rightarrow> []
                  | Inr st1 \<Rightarrow>
                      Committed st1 #
                      logActivities parse (activityIndex + 1) currentUnit units unitIndex st1 @
                      (case scheduleActivities parse (activityIndex + 1) currentUnit units
                              unitIndex st1 of
                         Inl err \<Rightarrow> []
                       | Inr (True, st2) \<Rightarrow> []
                       | Inr (False, st2) \<Rightarrow>
                           (case unscheduleCourse (u_unitCode currentUnit) (day course) st2 of
                              Inl err \<Rightarrow> []
                            | Inr st3 \<Rightarrow>
                                Uncommitted st3 #
                                logCourses parse rest activityIndex currentUnit units
                                  unitIndex st3)))
               else logCourses parse rest activityIndex currentUnit units unitIndex st))"
  by pat_completeness auto
termination
  by (relation "measures
        [\<lambda>x. case x of
               Inl (p, u, us, s) \<Rightarrow> 2 * (length us - u)
             | Inr (Inl (p, a, cu, us, u, s)) \<Rightarrow> 2 * (length us - (u + 1)) + 1
             | Inr (Inr (p, cs, a, cu, us, u, s)) \<Rightarrow> 2 * (length us - (u + 1)) + 1,
         \<lambda>x. case x of
               Inl (p, u, us, s) \<Rightarrow> 0
             | Inr (Inl (p, a, cu, us, u, s)) \<Rightarrow> 2 * (length (u_activities cu) - a)
             | Inr (Inr (p, cs, a, cu, us, u, s)) \<Rightarrow>
                 2 * (length (u_activities cu) - (a + 1)) + 1,
         \<lambda>x. case x of
               Inl (p, u, us, s) \<Rightarrow> 0
             | Inr (Inl (p, a, cu, us, u, s)) \<Rightarrow> 0
             | Inr (Inr (p, cs, a, cu, us, u, s)) \<Rightarrow> length cs]")
     auto

declare logUnits.simps [simp del] logActivities.simps [simp del]

definition initialState :: SearchState where
  \<comment> \<open>The two objects as filterCourseList creates them.\<close>
  "initialState = \<lparr>scheduledTimesPerDay = initialTimes, finalSchedule = []\<rparr>"

section \<open>Predicates of the specification\<close>

definition matchesPattern :: "string \<Rightarrow> bool" where
  \<comment> \<open>The shape of a clock time in words: one or two digits, a colon, two digits, and
      am or pm in either case.\<close>
  "matchesPattern t \<longleftrightarrow>
     (\<exists>h m x. t = h @ '':'' @ m @ x \<and> (length h = 1 \<or> length h = 2) \<and> list_all isDigit h
        \<and> length m = 2 \<and> list_all isDigit m \<and> (isAm x \<or> isPm x))"

definition restored :: "Unit list \<Rightarrow> SearchState \<Rightarrow> SearchState \<Rightarrow> bool" where
  \<comment> \<open>\<open>st'\<close> is \<open>st\<close> but for entries of the units \<open>later\<close> that were initialised: the
      index is the same, and every key of the schedule reads the same or reads the fresh
      entry of one of these units.\<close>
  "restored later st st' \<longleftrightarrow>
     scheduledTimesPerDay st' = scheduledTimesPerDay st
     \<and> (\<forall>k. map_of (finalSchedule st') k = map_of (finalSchedule st) k
            \<or> (\<exists>unit \<in> set later. k = u_unitCode unit
                  \<and> map_of (finalSchedule st') k
                      = Some \<lparr>ud_unitName = u_unitName unit, ud_courses = []\<rparr>))"

definition fullAssignment :: "CourseList \<Rightarrow> FilteredCourseList \<Rightarrow> bool" where
  \<comment> \<open>A full assignment for a course list: for every unit an entry that holds sessions
      of that unit, exactly one for each activity tag of the unit.\<close>
  "fullAssignment courseList sched \<longleftrightarrow>
     (\<forall>(code, unitData) \<in> set courseList.
        \<exists>entry. map_of sched code = Some entry
          \<and> set (ud_courses entry) \<subseteq> set (ud_courses unitData)
          \<and> distinct (map activity (ud_courses entry))
          \<and> set (map activity (ud_courses entry)) = set (map activity (ud_courses unitData)))"

definition exactCount :: "Unit \<Rightarrow> nat" where
  \<comment> \<open>The option count of a unit in words: the product of the lengths of the session
      lists of its activities, as a natural number.\<close>
  "exactCount unit = prod_list (map (\<lambda>a. length (ag_courses a)) (u_activities unit))"

fun numberLe :: "number \<Rightarrow> number \<Rightarrow> bool" where
  \<comment> \<open>\<open>x \<le> y\<close> for numbers; nothing compares with NaN.\<close>
  "numberLe NaN y = False"
| "numberLe x NaN = False"
| "numberLe NegInfinity y = True"
| "numberLe x PosInfinity = True"
| "numberLe (Finite a) (Finite b) = (a \<le> b)"
| "numberLe x y = False"

section \<open>Invariants of the search\<close>

definition coursesOf :: "FilteredCourseList \<Rightarrow> string \<Rightarrow> Course list" where
  \<comment> \<open>The sessions the schedule holds for a unit code (none when it has no entry).\<close>
  "coursesOf fs k = (case map_of fs k of None \<Rightarrow> [] | Some entry \<Rightarrow> ud_courses entry)"

definition timesOf :: "CourseTimes \<Rightarrow> string \<Rightarrow> ScheduledTime list" where
  \<comment> \<open>The committed intervals of a day (none when the index has no such day).\<close>
  "timesOf idx d = (case map_of idx d of None \<Rightarrow> [] | Some scheduledTimes \<Rightarrow> scheduledTimes)"

definition covered :: "parser \<Rightarrow> SearchState \<Rightarrow> bool" where
  \<comment> \<open>Every session of the schedule has its parsed interval in the index, on its day.\<close>
  "covered parse st \<longleftrightarrow>
     (\<forall>k. \<forall>c \<in> set (coursesOf (finalSchedule st) k).
        \<exists>x \<in> set (timesOf (scheduledTimesPerDay st) (day c)).
          parse (time c) = Inr (st_start x, st_end x))"

definition noOverlap :: "parser \<Rightarrow> FilteredCourseList \<Rightarrow> bool" where
  \<comment> \<open>Two different sessions of the schedule (different unit code or different place in
      the unit's list) on the same day have parsed intervals that do not conflict.\<close>
  "noOverlap parse fs \<longleftrightarrow>
     (\<forall>k1 i1 k2 i2.
        i1 < length (coursesOf fs k1) \<longrightarrow> i2 < length (coursesOf fs k2) \<longrightarrow>
        (k1, i1) \<noteq> (k2, i2) \<longrightarrow>
        day (coursesOf fs k1 ! i1) = day (coursesOf fs k2 ! i2) \<longrightarrow>
        (\<exists>s1 e1 s2 e2.
           parse (time (coursesOf fs k1 ! i1)) = Inr (s1, e1)
         \<and> parse (time (coursesOf fs k2 ! i2)) = Inr (s2, e2)
         \<and> \<not> (dateLt s1 e2 \<and> dateGt e1 s2)))"

definition unitDone :: "Unit \<Rightarrow> FilteredCourseList \<Rightarrow> bool" where
  \<comment> \<open>The schedule has the entry of the unit, with one session out of each activity, in
      the order in which the activities were scheduled.\<close>
  "unitDone unit fs \<longleftrightarrow>
     (\<exists>cs. map_of fs (u_unitCode unit)
             = Some \<lparr>ud_unitName = u_unitName unit, ud_courses = cs\<rparr>
         \<and> list_all2 (\<lambda>c g. c \<in> set (ag_courses g)) cs
              (sortActivitiesByCourseOptions (u_activities unit)))"

definition grouped :: "Course list \<Rightarrow> ActivityGroup list \<Rightarrow> bool" where
  \<comment> \<open>The activities are the groups of the courses by activity tag: one group for each
      tag that occurs, each holding courses of its tag only.\<close>
  "grouped courses acts \<longleftrightarrow>
     distinct (map activityType acts)
     \<and> set (map activityType acts) = set (map activity courses)
     \<and> (\<forall>g \<in> set acts. \<forall>c \<in> set (ag_courses g). c \<in> set courses \<and> activity c = activityType g)"

definition tryable :: "parser \<Rightarrow> SearchState \<Rightarrow> Course \<Rightarrow> bool" where
  \<comment> \<open>The candidate can be tried without an exception: its time text parses and the
      index has its day.\<close>
  "tryable parse st c \<longleftrightarrow>
     (\<exists>se. parse (time c) = Inr se) \<and> day c \<in> set (map fst (scheduledTimesPerDay st))"

definition intervalFor :: "parser \<Rightarrow> string \<Rightarrow> Course \<Rightarrow> string \<times> ScheduledTime option" where
  \<comment> \<open>The day of a session and the interval a commit records for it under a unit code
      (\<open>None\<close> if its time text does not parse).\<close>
  "intervalFor parse code c =
     (day c, case parse (time c) of
               Inl err \<Rightarrow> None
             | Inr (s, e) \<Rightarrow>
                 Some \<lparr>st_start = s, st_end = e, st_unitCode = code, st_activity = activity c\<rparr>)"

definition committedIntervals ::
  "parser \<Rightarrow> FilteredCourseList \<Rightarrow> (string \<times> ScheduledTime option) list" where
  \<comment> \<open>The intervals of all sessions of the schedule.\<close>
  "committedIntervals parse fs =
     concat (map (\<lambda>kv. map (\<lambda>c. intervalFor parse (fst kv) c) (ud_courses (snd kv))) fs)"

definition indexedIntervals :: "CourseTimes \<Rightarrow> (string \<times> ScheduledTime option) list" where
  \<comment> \<open>Every interval of the index, with its day.\<close>
  "indexedIntervals idx = concat (map (\<lambda>kv. map (\<lambda>x. (fst kv, Some x)) (snd kv)) idx)"

definition indexMatches :: "parser \<Rightarrow> SearchState \<Rightarrow> bool" where
  \<comment> \<open>The index holds exactly the intervals of the sessions of the schedule, each as
      often as the schedule has it.\<close>
  "indexMatches parse st \<longleftrightarrow>
     mset (committedIntervals parse (finalSchedule st))
       = mset (indexedIntervals (scheduledTimesPerDay st))"

definition laterEmpty :: "Unit list \<Rightarrow> SearchState \<Rightarrow> bool" where
  \<comment> \<open>The schedule holds no session for any of the units \<open>later\<close>.\<close>
  "laterEmpty later st \<longleftrightarrow>
     (\<forall>unit \<in> set later. coursesOf (finalSchedule st) (u_unitCode unit) = [])"

fun stateOf :: "event \<Rightarrow> SearchState" where
  "stateOf (Entered st) = st"
| "stateOf (Tried c st) = st"
| "stateOf (Committed st) = st"
| "stateOf (Uncommitted st) = st"

fun rank :: "number \<Rightarrow> int \<times> int" where
  \<comment> \<open>The place of a number in the order of the numbers, as a pair in the lexicographic
      order.\<close>
  "rank (Finite a) = (0, a)"
| "rank PosInfinity = (1, 0)"
| "rank NegInfinity = (- 1, 0)"
| "rank NaN = (2, 0)"

definition descendingKey :: "Unit \<Rightarrow> int \<times> int" where
  \<comment> \<open>A key whose ascending order is the descending order of the option counts.\<close>
  "descendingKey unit = (- fst (rank (optionCount unit)), - snd (rank (optionCount unit)))"

section \<open>Example inputs\<close>

definition session :: "string \<Rightarrow> string \<Rightarrow> string \<Rightarrow> string \<Rightarrow> string \<Rightarrow> Course" where
  \<comment> \<open>A session of unit \<open>code\<close> with identifier \<open>n\<close>, activity tag, day and time.\<close>
  "session code n tag d t =
     \<lparr>courseId = n, unitCode = code, unitName = code, classType = ''Class'', activity = tag,
      day = d, time = t, room = ''Room'', teachingStaff = ''Staff''\<rparr>"

definition unitA :: Unit where
  "unitA = \<lparr>u_unitCode = ''A'', u_unitName = ''Unit A'',
            u_activities =
              [\<lparr>activityType = ''LEC'',
                ag_courses = [session ''A'' ''a1'' ''LEC'' ''MON'' ''9:00am - 10:00am'']\<rparr>]\<rparr>"

definition unitB :: Unit where
  "unitB = \<lparr>u_unitCode = ''B'', u_unitName = ''Unit B'',
            u_activities =
              [\<lparr>activityType = ''LEC'',
                ag_courses = [session ''B'' ''b1'' ''LEC'' ''MON'' ''9:00am - 10:00am'']\<rparr>]\<rparr>"

definition stateA :: SearchState where
  \<comment> \<open>Unit A entered, nothing committed.\<close>
  "stateA =
     \<lparr>scheduledTimesPerDay = initialTimes,
      finalSchedule = [(''A'', \<lparr>ud_unitName = ''Unit A'', ud_courses = []\<rparr>)]\<rparr>"

definition stateA1 :: SearchState where
  \<comment> \<open>The session of unit A committed.\<close>
  "stateA1 =
     \<lparr>scheduledTimesPerDay =
        [(''MON'', [\<lparr>st_start = Some 32400000, st_end = Some 36000000,
                     st_unitCode = ''A'', st_activity = ''LEC''\<rparr>]),
         (''TUE'', []), (''WED'', []), (''THU'', []), (''FRI'', [])],
      finalSchedule =
        [(''A'', \<lparr>ud_unitName = ''Unit A'',
                  ud_courses = [session ''A'' ''a1'' ''LEC'' ''MON'' ''9:00am - 10:00am'']\<rparr>)]\<rparr>"

definition stateA2 :: SearchState where
  \<comment> \<open>After the failed attempt at unit B.\<close>
  "stateA2 =
     \<lparr>scheduledTimesPerDay =
        [(''MON'', [\<lparr>st_start = Some 32400000, st_end = Some 36000000,
                     st_unitCode = ''A'', st_activity = ''LEC''\<rparr>]),
         (''TUE'', []), (''WED'', []), (''THU'', []), (''FRI'', [])],
      finalSchedule =
        [(''A'', \<lparr>ud_unitName = ''Unit A'',
                  ud_courses = [session ''A'' ''a1'' ''LEC'' ''MON'' ''9:00am - 10:00am'']\<rparr>),
         (''B'', \<lparr>ud_unitName = ''Unit B'', ud_courses = []\<rparr>)]\<rparr>"

definition stateA3 :: SearchState where
  \<comment> \<open>After the uncommit of the session of unit A.\<close>
  "stateA3 =
     \<lparr>scheduledTimesPerDay = initialTimes,
      finalSchedule =
        [(''A'', \<lparr>ud_unitName = ''Unit A'', ud_courses = []\<rparr>),
         (''B'', \<lparr>ud_unitName = ''Unit B'', ud_courses = []\<rparr>)]\<rparr>"

definition singleUnit :: "Course list \<Rightarrow> CourseList" where
  \<comment> \<open>A course list with the one unit CS101 and the given sessions.\<close>
  "singleUnit cs = [(''CS101'', \<lparr>ud_unitName = ''CS101 Computing'', ud_courses = cs\<rparr>)]"

definition stateCS101 :: SearchState where
  \<comment> \<open>Unit CS101 entered, nothing committed.\<close>
  "stateCS101 =
     \<lparr>scheduledTimesPerDay = initialTimes,
      finalSchedule = [(''CS101'', \<lparr>ud_unitName = ''CS101 Computing'', ud_courses = []\<rparr>)]\<rparr>"

definition twoUnits :: CourseList where
  \<comment> \<open>Unit A with one session on Monday 9 to 10; unit B with two options, the first at
      the same time and the second on Monday 10 to 11.\<close>
  "twoUnits =
     [(''A'', \<lparr>ud_unitName = ''Unit A'',
               ud_courses = [session ''A'' ''a1'' ''LEC'' ''MON'' ''9:00am - 10:00am'']\<rparr>),
      (''B'', \<lparr>ud_unitName = ''Unit B'',
               ud_courses = [session ''B'' ''b1'' ''LEC'' ''MON'' ''9:00am - 10:00am'',
                             session ''B'' ''b2'' ''LEC'' ''MON'' ''10:00am - 11:00am'']\<rparr>)]"

definition twoUnitsSchedule :: FilteredCourseList where
  \<comment> \<open>The schedule found for \<open>twoUnits\<close>: unit B, which has more options, is entered
      first; its first option is given up when unit A does not fit.\<close>
  "twoUnitsSchedule =
     [(''B'', \<lparr>ud_unitName = ''Unit B'',
               ud_courses = [session ''B'' ''b2'' ''LEC'' ''MON'' ''10:00am - 11:00am'']\<rparr>),
      (''A'', \<lparr>ud_unitName = ''Unit A'',
               ud_courses = [session ''A'' ''a1'' ''LEC'' ''MON'' ''9:00am - 10:00am'']\<rparr>)]"

definition twoUnitsBuilt :: "Unit list" where
  \<comment> \<open>The units filterCourseList builds from \<open>twoUnits\<close>, before it sorts them.\<close>
  "twoUnitsBuilt =
     [\<lparr>u_unitCode = ''A'', u_unitName = ''Unit A'',
       u_activities =
         [\<lparr>activityType = ''LEC'',
           ag_courses = [session ''A'' ''a1'' ''LEC'' ''MON'' ''9:00am - 10:00am'']\<rparr>]\<rparr>,
      \<lparr>u_unitCode = ''B'', u_unitName = ''Unit B'',
       u_activities =
         [\<lparr>activityType = ''LEC'',
           ag_courses = [session ''B'' ''b1'' ''LEC'' ''MON'' ''9:00am - 10:00am'',
                         session ''B'' ''b2'' ''LEC'' ''MON'' ''10:00am - 11:00am'']\<rparr>]\<rparr>]"

definition stateBoth :: SearchState where
  \<comment> \<open>The state at the end of the run on \<open>twoUnits\<close>: both sessions committed.\<close>
  "stateBoth =
     \<lparr>scheduledTimesPerDay =
        [(''MON'', [\<lparr>st_start = Some 36000000, st_end = Some 39600000,
                     st_unitCode = ''B'', st_activity = ''LEC''\<rparr>,
                    \<lparr>st_start = Some 32400000, st_end = Some 36000000,
                     st_unitCode = ''A'', st_activity = ''LEC''\<rparr>]),
         (''TUE'', []), (''WED'', []), (''THU'', []), (''FRI'', [])],
      finalSchedule = twoUnitsSchedule\<rparr>"

definition sessions :: "string \<Rightarrow> string \<Rightarrow> nat \<Rightarrow> Course list" where
  \<comment> \<open>\<open>n\<close> sessions of one activity of a unit, numbered from 0.\<close>
  "sessions code tag n =
     map (\<lambda>i. session code (natToString i) tag ''MON'' ''9:00am - 10:00am'') [0..<n]"

definition unitP :: Unit where
  \<comment> \<open>A unit with 34 activities of three sessions each: 3^34 = 16677181699666569
      combinations.\<close>
  "unitP = \<lparr>u_unitCode = ''P'', u_unitName = ''Unit P'',
            u_activities =
              map (\<lambda>i. \<lparr>activityType = ''ACT'' @ natToString i,
                         ag_courses = sessions ''P'' (''ACT'' @ natToString i) 3\<rparr>) [0..<34]\<rparr>"

definition unitQ :: Unit where
  \<comment> \<open>A unit with six activities of 8, 103, 307, 1021, 1871 and 34511 sessions:
      3^34 - 1 = 16677181699666568 combinations.\<close>
  "unitQ = \<lparr>u_unitCode = ''Q'', u_unitName = ''Unit Q'',
            u_activities =
              [\<lparr>activityType = ''LEC'', ag_courses = sessions ''Q'' ''LEC'' 8\<rparr>,
               \<lparr>activityType = ''TUT'', ag_courses = sessions ''Q'' ''TUT'' 103\<rparr>,
               \<lparr>activityType = ''PRC'', ag_courses = sessions ''Q'' ''PRC'' 307\<rparr>,
               \<lparr>activityType = ''WOR'', ag_courses = sessions ''Q'' ''WOR'' 1021\<rparr>,
               \<lparr>activityType = ''LAB'', ag_courses = sessions ''Q'' ''LAB'' 1871\<rparr>,
               \<lparr>activityType = ''STU'', ag_courses = sessions ''Q'' ''STU'' 34511\<rparr>]\<rparr>"

definition prototypeUnit :: CourseList where
  \<comment> \<open>A course list with the single unit code \<open>__proto__\<close>, an own property of the
      object as \<open>JSON.parse\<close> creates it: one lecture, on Monday 9 to 10.\<close>
  "prototypeUnit =
     [(''__proto__'',
       \<lparr>ud_unitName = ''Unit P'',
        ud_courses = [session ''__proto__'' ''p1'' ''LEC'' ''MON'' ''9:00am - 10:00am'']\<rparr>)]"

definition prototypeUnitSchedule :: FilteredCourseList where
  \<comment> \<open>The slots of the object returned for \<open>prototypeUnit\<close>: the prototype only.\<close>
  "prototypeUnitSchedule =
     [(''__proto__'',
       \<lparr>ud_unitName = ''Unit P'',
        ud_courses = [session ''__proto__'' ''p1'' ''LEC'' ''MON'' ''9:00am - 10:00am'']\<rparr>)]"

section \<open>Properties\<close>

subsection \<open>The conflict check\<close>

lemma hasTimeConflict_iff:
  "hasTimeConflict scheduledTimes s e \<longleftrightarrow>
     (\<exists>c \<in> set scheduledTimes. dateLt s (st_end c) \<and> dateGt e (st_start c))"
  by (induction scheduledTimes) auto

lemma parse_9_10:
  "parseCourseTimes ''9:00am - 10:00am'' = Inr (Some 32400000, Some 36000000)"
  by code_simp

lemma parse_10_11:
  "parseCourseTimes ''10:00am - 11:00am'' = Inr (Some 36000000, Some 39600000)"
  by code_simp

text \<open>
  C3. The conflict check reports a conflict exactly when some committed interval of the
  day satisfies \<open>s < ce\<close> and \<open>e > cs\<close> (the comparisons of the language on Dates); two
  sessions at 9:00am - 10:00am and 10:00am - 11:00am do not conflict, whichever is
  committed first.
\<close>

theorem conflict_predicate:
  "(hasTimeConflict scheduledTimes s e \<longleftrightarrow>
      (\<exists>c \<in> set scheduledTimes. dateLt s (st_end c) \<and> dateGt e (st_start c)))
   \<and> (\<exists>s1 e1 s2 e2.
        parseCourseTimes ''9:00am - 10:00am'' = Inr (s1, e1)
      \<and> parseCourseTimes ''10:00am - 11:00am'' = Inr (s2, e2)
      \<and> \<not> hasTimeConflict
            [\<lparr>st_start = s1, st_end = e1, st_unitCode = code, st_activity = tag\<rparr>] s2 e2
      \<and> \<not> hasTimeConflict
            [\<lparr>st_start = s2, st_end = e2, st_unitCode = code, st_activity = tag\<rparr>] s1 e1)"
  by (simp add: hasTimeConflict_iff parse_9_10 parse_10_11 dateLt_def dateGt_def)

subsection \<open>The shape of a clock time\<close>

lemma isAmPm_iff: "isAmPm a b \<longleftrightarrow> isAm [a, b] \<or> isPm [a, b]"
  by (auto simp: isAmPm_def isAm_def isPm_def)

lemma isAmPm_two: "isAm x \<or> isPm x \<Longrightarrow> \<exists>a b. x = [a, b]"
  by (auto simp: isAm_def isPm_def)

lemma matchTime_None_iff: "matchTime t = None \<longleftrightarrow> \<not> matchesPattern t"
proof
  assume none: "matchTime t = None"
  show "\<not> matchesPattern t"
  proof
    assume "matchesPattern t"
    then obtain h m x where t: "t = h @ '':'' @ m @ x" and h: "length h = 1 \<or> length h = 2"
      and hd: "list_all isDigit h" and m: "length m = 2" and md: "list_all isDigit m"
      and x: "isAm x \<or> isPm x"
      unfolding matchesPattern_def by blast
    from x obtain a b where xab: "x = [a, b]" using isAmPm_two by blast
    from m obtain m1 m2 where mm: "m = [m1, m2]"
      by (metis (no_types) length_0_conv length_Suc_conv numeral_2_eq_2)
    from h show False
    proof
      assume "length h = 1"
      then obtain h1 where "h = [h1]" by (metis length_0_conv length_Suc_conv One_nat_def)
      with t mm xab hd md x none show False
        by (simp add: matchTime_def isAmPm_iff)
    next
      assume "length h = 2"
      then obtain h1 h2 where "h = [h1, h2]"
        by (metis (no_types) length_0_conv length_Suc_conv numeral_2_eq_2)
      with t mm xab hd md x none show False
        by (simp add: matchTime_def isAmPm_iff)
    qed
  qed
next
  assume nm: "\<not> matchesPattern t"
  show "matchTime t = None"
  proof (rule ccontr)
    assume "matchTime t \<noteq> None"
    then obtain g where g: "matchTime t = Some g" by blast
    then have "matchesPattern t"
      unfolding matchTime_def matchesPattern_def
      apply (simp split: list.splits if_splits)
       apply (rule_tac x="[x21]" in exI, rule_tac x="[x21b, x21c]" in exI, simp add: isAmPm_iff)
      apply (rule_tac x="[x21, x21a]" in exI, rule_tac x="[x21c, x21d]" in exI, simp add: isAmPm_iff)
      done
    with nm show False by blast
  qed
qed

lemma convertTo24Hour_Inl_iff:
  "convertTo24Hour t = Inl err \<longleftrightarrow> \<not> matchesPattern (trim t) \<and> err = InvalidTimeFormat t"
  by (auto simp: convertTo24Hour_def Let_def matchTime_None_iff [symmetric]
           split: option.splits prod.splits)

lemma dateLt_None [simp]: "\<not> dateLt None x" "\<not> dateLt x None"
  by (simp_all add: dateLt_def split: option.splits)

lemma dateGt_None [simp]: "\<not> dateGt None x" "\<not> dateGt x None"
  by (simp_all add: dateGt_def split: option.splits)

lemma dateGt_dateLt: "dateGt a b = dateLt b a"
  by (simp add: dateGt_def dateLt_def split: option.splits)

text \<open>
  C9. convertTo24Hour throws exactly when the trimmed text does not have the shape; it
  checks no range: 13:00pm and 9:75am give the texts 25:00:00 and 09:75:00, which make
  Invalid Dates; every comparison with an Invalid Date is false, so an interval with an
  invalid start or end passes the conflict check against any committed intervals.
\<close>

theorem shape_only_time_validation:
  "(convertTo24Hour t = Inl (InvalidTimeFormat t)) = (\<not> matchesPattern (trim t))
   \<and> (\<exists>r. convertTo24Hour t = Inr r) = matchesPattern (trim t)
   \<and> convertTo24Hour ''13:00pm'' = Inr ''25:00:00''
   \<and> convertTo24Hour ''9:75am'' = Inr ''09:75:00''
   \<and> newDate (''1970-01-01T'' @ ''25:00:00'') = None
   \<and> newDate (''1970-01-01T'' @ ''09:75:00'') = None
   \<and> \<not> dateLt None x \<and> \<not> dateLt x None \<and> \<not> dateGt None x \<and> \<not> dateGt x None
   \<and> \<not> hasTimeConflict scheduledTimes None endTime
   \<and> \<not> hasTimeConflict scheduledTimes startTime None
   \<and> parseCourseTimes ''13:00pm - 2:00pm'' = Inr (None, Some 50400000)
   \<and> parseCourseTimes ''9:00am - 9:75am'' = Inr (Some 32400000, None)"
proof -
  have a: "(convertTo24Hour t = Inl (InvalidTimeFormat t)) = (\<not> matchesPattern (trim t))"
    by (simp add: convertTo24Hour_Inl_iff)
  have b: "(\<exists>r. convertTo24Hour t = Inr r) = matchesPattern (trim t)"
  proof (cases "convertTo24Hour t")
    case (Inl err)
    then have "\<not> matchesPattern (trim t)" by (simp add: convertTo24Hour_Inl_iff)
    with Inl show ?thesis by simp
  next
    case (Inr r)
    then have "convertTo24Hour t \<noteq> Inl (InvalidTimeFormat t)" by simp
    then have "matchesPattern (trim t)" by (simp add: convertTo24Hour_Inl_iff)
    with Inr show ?thesis by simp
  qed
  have c: "convertTo24Hour ''13:00pm'' = Inr ''25:00:00''" by code_simp
  have d: "convertTo24Hour ''9:75am'' = Inr ''09:75:00''" by code_simp
  have e: "newDate (''1970-01-01T'' @ ''25:00:00'') = None" by code_simp
  have f: "newDate (''1970-01-01T'' @ ''09:75:00'') = None" by code_simp
  have g: "\<not> hasTimeConflict scheduledTimes None endTime"
    by (simp add: hasTimeConflict_iff)
  have h: "\<not> hasTimeConflict scheduledTimes startTime None"
    by (simp add: hasTimeConflict_iff)
  have i: "parseCourseTimes ''13:00pm - 2:00pm'' = Inr (None, Some 50400000)" by code_simp
  have j: "parseCourseTimes ''9:00am - 9:75am'' = Inr (Some 32400000, None)" by code_simp
  from a b c d e f g h i j show ?thesis by simp
qed

subsection \<open>Rounding\<close>

lemma bitLength_lower: "0 < n \<Longrightarrow> 2 ^ (bitLength n - 1) \<le> n"
proof (induction n rule: bitLength.induct)
  case (1 n)
  show ?case
  proof (cases "n div 2 = 0")
    case True
    with 1(2) show ?thesis by (simp add: bitLength.simps [of n] bitLength.simps [of 0])
  next
    case False
    then have "2 ^ (bitLength (n div 2) - 1) \<le> n div 2" using 1 by simp
    moreover have "bitLength (n div 2) > 0"
      using False by (simp add: bitLength.simps [of "n div 2"])
    ultimately have "2 ^ bitLength (n div 2) \<le> 2 * (n div 2)"
      by (cases "bitLength (n div 2)") simp_all
    then show ?thesis using 1(2) by (simp add: bitLength.simps [of n])
  qed
qed

lemma roundNat_pos: "0 < n \<Longrightarrow> 0 < roundNat n"
proof -
  assume n: "0 < n"
  have "2 ^ (bitLength n - 53) \<le> n"
  proof -
    have "(2::nat) ^ (bitLength n - 53) \<le> 2 ^ (bitLength n - 1)"
      by (rule power_increasing) simp_all
    from order_trans [OF this bitLength_lower [OF n]] show ?thesis .
  qed
  then have "0 < n div 2 ^ (bitLength n - 53)"
    by (simp add: div_greater_zero_iff)
  then show ?thesis using n by (simp add: roundNat_def Let_def)
qed

lemma isPositive_roundToDouble [simp]: "isPositive (roundToDouble i) \<longleftrightarrow> 0 < i"
proof (cases "i = 0")
  case True
  then show ?thesis by (simp add: roundToDouble_def)
next
  case False
  then have "0 < roundNat (nat \<bar>i\<bar>)" by (intro roundNat_pos) simp
  then show ?thesis using False by (auto simp: roundToDouble_def Let_def)
qed

lemma roundToDouble_exact: "\<bar>i\<bar> \<le> 2 ^ 53 \<Longrightarrow> roundToDouble i = Finite i"
  by (simp add: roundToDouble_def)

lemma round_3_34: "roundToDouble 16677181699666569 = Finite 16677181699666568"
  by (simp add: roundToDouble_def roundNat_def Let_def bitLength.simps)

lemma round_3_34_less_1: "roundToDouble 16677181699666568 = Finite 16677181699666568"
  by (simp add: roundToDouble_def roundNat_def Let_def bitLength.simps)

subsection \<open>The two sorts\<close>

lemma mset_insertBy [simp]: "mset (insertBy cmp x ys) = add_mset x (mset ys)"
  by (induction ys) simp_all

lemma mset_sortBy [simp]: "mset (sortBy cmp xs) = mset xs"
  by (induction xs) (simp_all add: sortBy_def)

lemma set_sortBy [simp]: "set (sortBy cmp xs) = set xs"
  using mset_sortBy [of cmp xs] by (metis set_mset_mset)

lemma insertBy_insort_key:
  assumes "\<And>y. y \<in> set ys \<Longrightarrow> \<not> isPositive (cmp x y) \<longleftrightarrow> f x \<le> f y"
  shows "insertBy cmp x ys = insort_key f x ys"
  using assms by (induction ys) simp_all

lemma sortBy_sort_key:
  assumes "\<And>x y. x \<in> set xs \<Longrightarrow> y \<in> set xs
             \<Longrightarrow> \<not> isPositive (cmp x y) \<longleftrightarrow> f x \<le> (f y :: 'b :: linorder)"
  shows "sortBy cmp xs = sort_key f xs"
  using assms
proof (induction xs)
  case Nil
  show ?case by (simp add: sortBy_def)
next
  case (Cons x xs)
  have ih: "sortBy cmp xs = sort_key f xs"
    by (rule Cons.IH) (simp add: Cons.prems)
  have "insertBy cmp x (sort_key f xs) = insort_key f x (sort_key f xs)"
    by (rule insertBy_insort_key) (simp add: Cons.prems)
  with ih show ?case by (simp add: sortBy_def sort_key_def)
qed

lemma compareActivities_le:
  "\<not> isPositive (compareActivities a b) \<longleftrightarrow> length (ag_courses a) \<le> length (ag_courses b)"
  by (auto simp: compareActivities_def arrayLength_def)

lemma sortActivities_sort_key:
  "sortActivitiesByCourseOptions activities = sort_key (\<lambda>a. length (ag_courses a)) activities"
  unfolding sortActivitiesByCourseOptions_def
  by (rule sortBy_sort_key) (simp add: compareActivities_le)

lemma sortBy_idem:
  "sortActivitiesByCourseOptions (sortActivitiesByCourseOptions activities)
     = sortActivitiesByCourseOptions activities"
  by (simp add: sortActivities_sort_key sort_key_id_if_sorted)

lemma set_sortActivities [simp]: "set (sortActivitiesByCourseOptions activities) = set activities"
  by (simp add: sortActivities_sort_key)

lemma length_sortActivities [simp]:
  "length (sortActivitiesByCourseOptions activities) = length activities"
  by (simp add: sortActivities_sort_key)

lemma mset_sortActivities [simp]:
  "mset (sortActivitiesByCourseOptions activities) = mset activities"
  by (simp add: sortActivities_sort_key)

lemma set_sortUnits [simp]: "set (sortUnits units) = set units"
  by (simp add: sortUnits_def)

lemma mset_sortUnits [simp]: "mset (sortUnits units) = mset units"
  by (simp add: sortUnits_def)

lemma numberMinus_le:
  "x \<noteq> NaN \<Longrightarrow> y \<noteq> NaN \<Longrightarrow> \<not> isPositive (numberMinus y x) \<longleftrightarrow> numberLe y x"
  by (cases x; cases y) auto

lemma numberLe_rank: "x \<noteq> NaN \<Longrightarrow> y \<noteq> NaN \<Longrightarrow> numberLe y x \<longleftrightarrow> rank y \<le> rank x"
  by (cases x; cases y) simp_all

lemma rank_inject [simp]: "rank x = rank y \<longleftrightarrow> x = y"
  by (cases x; cases y) simp_all

lemma descendingKey_le:
  "descendingKey a \<le> descendingKey b \<longleftrightarrow> rank (optionCount b) \<le> rank (optionCount a)"
  by (cases "rank (optionCount a)"; cases "rank (optionCount b)")
     (auto simp: descendingKey_def)

lemma descendingKey_eq:
  "descendingKey a = (- fst (rank k), - snd (rank k)) \<longleftrightarrow> optionCount a = k"
proof -
  have "descendingKey a = (- fst (rank k), - snd (rank k)) \<longleftrightarrow> rank (optionCount a) = rank k"
    by (cases "rank (optionCount a)"; cases "rank k") (auto simp: descendingKey_def)
  then show ?thesis by simp
qed

lemma sortUnits_sort_key:
  assumes "\<forall>u \<in> set units. optionCount u \<noteq> NaN"
  shows "sortUnits units = sort_key descendingKey units"
  unfolding sortUnits_def
proof (rule sortBy_sort_key)
  fix x y assume "x \<in> set units" "y \<in> set units"
  with assms have "optionCount x \<noteq> NaN" "optionCount y \<noteq> NaN" by auto
  then show "\<not> isPositive (compareUnits x y) \<longleftrightarrow> descendingKey x \<le> descendingKey y"
    by (simp add: compareUnits_def numberMinus_le numberLe_rank descendingKey_le)
qed

subsection \<open>Option counts\<close>

lemma numberTimes_positive:
  "isPositive acc \<Longrightarrow> xs \<noteq> [] \<Longrightarrow> isPositive (numberTimes acc (arrayLength xs))"
  by (cases acc) (simp_all add: arrayLength_def infinityOf_def signOf_def zero_less_mult_iff)

lemma foldl_positive:
  assumes "\<forall>a \<in> set acts. ag_courses a \<noteq> []" "isPositive acc"
  shows "isPositive (foldl (\<lambda>acc a. numberTimes acc (arrayLength (ag_courses a))) acc acts)"
  using assms by (induction acts arbitrary: acc) (simp_all add: numberTimes_positive)

lemma optionCount_positive:
  "\<forall>a \<in> set (u_activities unit). ag_courses a \<noteq> [] \<Longrightarrow> isPositive (optionCount unit)"
  unfolding optionCount_def by (rule foldl_positive) simp_all

lemma optionCount_not_NaN:
  "\<forall>a \<in> set (u_activities unit). ag_courses a \<noteq> [] \<Longrightarrow> optionCount unit \<noteq> NaN"
  using optionCount_positive [of unit] by auto

lemma prod_list_pos: "\<forall>x \<in> set xs. 0 < f x \<Longrightarrow> 0 < prod_list (map f xs :: nat list)"
  by (induction xs) simp_all

lemma foldl_exact:
  assumes "\<forall>a \<in> set acts. ag_courses a \<noteq> []"
    and "p * prod_list (map (\<lambda>a. length (ag_courses a)) acts) \<le> 2 ^ 53"
  shows "foldl (\<lambda>acc a. numberTimes acc (arrayLength (ag_courses a))) (Finite (int p)) acts
           = Finite (int (p * prod_list (map (\<lambda>a. length (ag_courses a)) acts)))"
  using assms
proof (induction acts arbitrary: p)
  case Nil
  then show ?case by simp
next
  case (Cons a acts)
  let ?l = "length (ag_courses a)"
  let ?r = "prod_list (map (\<lambda>a. length (ag_courses a)) acts)"
  from Cons.prems(1) have "0 < ?r" by (intro prod_list_pos) simp
  then have "p * ?l \<le> p * ?l * ?r" by simp
  moreover from Cons.prems(2) have "p * ?l * ?r \<le> 2 ^ 53" by (simp add: mult.assoc)
  ultimately have small: "p * ?l \<le> 2 ^ 53" by (rule order_trans)
  then have "int (p * ?l) \<le> 2 ^ 53" by (metis of_nat_le_iff of_nat_numeral of_nat_power)
  then have "\<bar>int p * int ?l\<bar> \<le> 2 ^ 53" by simp
  then have step: "numberTimes (Finite (int p)) (arrayLength (ag_courses a)) = Finite (int (p * ?l))"
    by (simp add: arrayLength_def roundToDouble_exact)
  have "foldl (\<lambda>acc a. numberTimes acc (arrayLength (ag_courses a))) (Finite (int (p * ?l))) acts
           = Finite (int (p * ?l * ?r))"
    using Cons.prems by (intro Cons.IH) (simp_all add: mult.assoc)
  with step show ?case by (simp add: mult.assoc)
qed

lemma optionCount_exact:
  assumes "\<forall>a \<in> set (u_activities unit). ag_courses a \<noteq> []" "exactCount unit \<le> 2 ^ 53"
  shows "optionCount unit = Finite (int (exactCount unit))"
  using foldl_exact [of "u_activities unit" 1] assms
  by (simp add: optionCount_def exactCount_def)

lemma length_sessions [simp]: "length (sessions code tag n) = n"
  by (simp add: sessions_def)

lemma optionCount_unitQ: "optionCount unitQ = Finite 16677181699666568"
  by (simp add: optionCount_def unitQ_def arrayLength_def roundToDouble_exact round_3_34_less_1)

lemma exactCount_unitQ: "exactCount unitQ = 16677181699666568"
  by (simp add: exactCount_def unitQ_def)

lemma optionCount_unitP: "optionCount unitP = Finite 16677181699666568"
  by (simp add: optionCount_def unitP_def arrayLength_def roundToDouble_exact round_3_34 upt_rec)

lemma exactCount_unitP: "exactCount unitP = 16677181699666569"
  by (simp add: exactCount_def unitP_def upt_rec)

subsection \<open>Unfolding the search\<close>

lemma scheduleCourse_Inr:
  assumes "scheduleCourse code c s e d st = Inr st1"
  obtains entry sts where
    "map_of (finalSchedule st) code = Some entry"
    "map_of (scheduledTimesPerDay st) d = Some sts"
    "finalSchedule st1
       = AList.update code (entry\<lparr>ud_courses := ud_courses entry @ [c]\<rparr>) (finalSchedule st)"
    "scheduledTimesPerDay st1
       = AList.update d
           (sts @ [\<lparr>st_start = s, st_end = e, st_unitCode = code, st_activity = activity c\<rparr>])
           (scheduledTimesPerDay st)"
  using assms unfolding scheduleCourse_def
  by (auto split: option.splits)

lemma unscheduleCourse_Inr:
  assumes "unscheduleCourse code d st = Inr st1"
  obtains entry sts where
    "map_of (finalSchedule st) code = Some entry"
    "map_of (scheduledTimesPerDay st) d = Some sts"
    "finalSchedule st1
       = AList.update code (entry\<lparr>ud_courses := butlast (ud_courses entry)\<rparr>) (finalSchedule st)"
    "scheduledTimesPerDay st1 = AList.update d (butlast sts) (scheduledTimesPerDay st)"
  using assms unfolding unscheduleCourse_def
  by (auto split: option.splits)

lemma scheduleUnits_InrE [consumes 1, case_names finished enter]:
  assumes "scheduleUnits parse u units st = Inr (ok, st')"
  obtains "length units \<le> u" "ok" "st' = st"
  | "u < length units"
    "scheduleActivities parse 0
       ((units ! u)\<lparr>u_activities := sortActivitiesByCourseOptions (u_activities (units ! u))\<rparr>)
       units u (initializeUnitSchedule (units ! u) st) = Inr (ok, st')"
  using assms by (subst (asm) scheduleUnits.simps) (auto simp: Let_def split: if_splits)

lemma scheduleActivities_InrE [consumes 1, case_names next_unit candidates]:
  assumes "scheduleActivities parse a cu units u st = Inr (ok, st')"
  obtains "length (u_activities cu) \<le> a" "scheduleUnits parse (u + 1) units st = Inr (ok, st')"
  | "a < length (u_activities cu)"
    "tryCourses parse (ag_courses (u_activities cu ! a)) a cu units u st = Inr (ok, st')"
  using assms by (subst (asm) scheduleActivities.simps) (auto split: if_splits)

lemma tryCourses_Cons_InrE [consumes 1, case_names conflict commit backtrack]:
  assumes "tryCourses parse (c # rest) a cu units u st = Inr (ok, st')"
  obtains s e sts where
      "parse (time c) = Inr (s, e)"
      "map_of (scheduledTimesPerDay st) (day c) = Some sts"
      "hasTimeConflict sts s e"
      "tryCourses parse rest a cu units u st = Inr (ok, st')"
  | s e sts st1 where
      "parse (time c) = Inr (s, e)"
      "map_of (scheduledTimesPerDay st) (day c) = Some sts"
      "\<not> hasTimeConflict sts s e"
      "scheduleCourse (u_unitCode cu) c s e (day c) st = Inr st1"
      "scheduleActivities parse (a + 1) cu units u st1 = Inr (True, st')"
      "ok"
  | s e sts st1 st2 st3 where
      "parse (time c) = Inr (s, e)"
      "map_of (scheduledTimesPerDay st) (day c) = Some sts"
      "\<not> hasTimeConflict sts s e"
      "scheduleCourse (u_unitCode cu) c s e (day c) st = Inr st1"
      "scheduleActivities parse (a + 1) cu units u st1 = Inr (False, st2)"
      "unscheduleCourse (u_unitCode cu) (day c) st2 = Inr st3"
      "tryCourses parse rest a cu units u st3 = Inr (ok, st')"
  using assms
  by (auto split: sum.splits option.splits if_splits prod.splits bool.splits)

subsection \<open>What a failed call leaves behind\<close>

lemma restored_refl: "restored later st st"
  by (simp add: restored_def)

lemma restored_trans:
  assumes "restored later st st1" "restored later st1 st2"
  shows "restored later st st2"
  unfolding restored_def
proof (intro conjI allI)
  show "scheduledTimesPerDay st2 = scheduledTimesPerDay st"
    using assms by (simp add: restored_def)
next
  fix k
  from assms(2) have "map_of (finalSchedule st2) k = map_of (finalSchedule st1) k
     \<or> (\<exists>unit \<in> set later. k = u_unitCode unit
          \<and> map_of (finalSchedule st2) k = Some \<lparr>ud_unitName = u_unitName unit, ud_courses = []\<rparr>)"
    by (simp add: restored_def)
  moreover from assms(1) have "map_of (finalSchedule st1) k = map_of (finalSchedule st) k
     \<or> (\<exists>unit \<in> set later. k = u_unitCode unit
          \<and> map_of (finalSchedule st1) k = Some \<lparr>ud_unitName = u_unitName unit, ud_courses = []\<rparr>)"
    by (simp add: restored_def)
  ultimately show "map_of (finalSchedule st2) k = map_of (finalSchedule st) k
     \<or> (\<exists>unit \<in> set later. k = u_unitCode unit
          \<and> map_of (finalSchedule st2) k = Some \<lparr>ud_unitName = u_unitName unit, ud_courses = []\<rparr>)"
    by auto
qed

lemma restored_initialize:
  assumes "restored later (initializeUnitSchedule unit st) st'" "set later \<subseteq> set later'"
    "unit \<in> set later'"
  shows "restored later' st st'"
  unfolding restored_def
proof (intro conjI allI)
  show "scheduledTimesPerDay st' = scheduledTimesPerDay st"
    using assms(1) by (simp add: restored_def initializeUnitSchedule_def)
next
  fix k
  from assms(1) have "map_of (finalSchedule st') k
        = map_of (finalSchedule (initializeUnitSchedule unit st)) k
     \<or> (\<exists>unit \<in> set later. k = u_unitCode unit
          \<and> map_of (finalSchedule st') k = Some \<lparr>ud_unitName = u_unitName unit, ud_courses = []\<rparr>)"
    by (simp add: restored_def)
  then show "map_of (finalSchedule st') k = map_of (finalSchedule st) k
     \<or> (\<exists>unit \<in> set later'. k = u_unitCode unit
          \<and> map_of (finalSchedule st') k = Some \<lparr>ud_unitName = u_unitName unit, ud_courses = []\<rparr>)"
    using assms(2,3)
    by (cases "k = u_unitCode unit")
       (auto simp: initializeUnitSchedule_def update_conv')
qed

lemma restored_uncommit:
  assumes commit: "scheduleCourse code c s e d st = Inr st1"
    and rec: "restored later st1 st2"
    and uncommit: "unscheduleCourse code d st2 = Inr st3"
  shows "restored later st st3"
proof -
  from commit obtain entry sts where
    e: "map_of (finalSchedule st) code = Some entry"
    and t: "map_of (scheduledTimesPerDay st) d = Some sts"
    and f1: "finalSchedule st1
       = AList.update code (entry\<lparr>ud_courses := ud_courses entry @ [c]\<rparr>) (finalSchedule st)"
    and t1: "scheduledTimesPerDay st1
       = AList.update d
           (sts @ [\<lparr>st_start = s, st_end = e, st_unitCode = code, st_activity = activity c\<rparr>])
           (scheduledTimesPerDay st)"
    by (rule scheduleCourse_Inr)
  from uncommit obtain entry2 sts2 where
    e2: "map_of (finalSchedule st2) code = Some entry2"
    and t2: "map_of (scheduledTimesPerDay st2) d = Some sts2"
    and f3: "finalSchedule st3
       = AList.update code (entry2\<lparr>ud_courses := butlast (ud_courses entry2)\<rparr>) (finalSchedule st2)"
    and t3: "scheduledTimesPerDay st3 = AList.update d (butlast sts2) (scheduledTimesPerDay st2)"
    by (rule unscheduleCourse_Inr)
  from rec have idx: "scheduledTimesPerDay st2 = scheduledTimesPerDay st1"
    by (simp add: restored_def)
  have "sts2 = sts @ [\<lparr>st_start = s, st_end = e, st_unitCode = code, st_activity = activity c\<rparr>]"
    using t2 idx t1 by (simp add: update_conv')
  then have "scheduledTimesPerDay st3 = AList.update d sts (scheduledTimesPerDay st)"
    using t3 idx t1 by simp
  then have idx3: "scheduledTimesPerDay st3 = scheduledTimesPerDay st"
    using t by (simp add: update_triv)
  have "map_of (finalSchedule st3) k = map_of (finalSchedule st) k
     \<or> (\<exists>unit \<in> set later. k = u_unitCode unit
          \<and> map_of (finalSchedule st3) k = Some \<lparr>ud_unitName = u_unitName unit, ud_courses = []\<rparr>)"
    for k
  proof -
    from rec have r: "map_of (finalSchedule st2) k = map_of (finalSchedule st1) k
       \<or> (\<exists>unit \<in> set later. k = u_unitCode unit
            \<and> map_of (finalSchedule st2) k = Some \<lparr>ud_unitName = u_unitName unit, ud_courses = []\<rparr>)"
      by (simp add: restored_def)
    show ?thesis
    proof (cases "k = code")
      case False
      with r f1 f3 show ?thesis by (simp add: update_conv')
    next
      case True
      from r show ?thesis
      proof
        assume "map_of (finalSchedule st2) k = map_of (finalSchedule st1) k"
        with True e2 f1 have "entry2 = entry\<lparr>ud_courses := ud_courses entry @ [c]\<rparr>"
          by (simp add: update_conv')
        with True f3 e show ?thesis by (simp add: update_conv')
      next
        assume "\<exists>unit \<in> set later. k = u_unitCode unit
            \<and> map_of (finalSchedule st2) k = Some \<lparr>ud_unitName = u_unitName unit, ud_courses = []\<rparr>"
        then obtain unit where un: "unit \<in> set later" "k = u_unitCode unit"
          "map_of (finalSchedule st2) k = Some \<lparr>ud_unitName = u_unitName unit, ud_courses = []\<rparr>"
          by blast
        with True e2 have "entry2 = \<lparr>ud_unitName = u_unitName unit, ud_courses = []\<rparr>" by simp
        with True f3 un show ?thesis by (auto simp: update_conv')
      qed
    qed
  qed
  with idx3 show ?thesis by (simp add: restored_def)
qed

lemma search_restores:
  "scheduleUnits parse u units st = Inr (False, st') \<Longrightarrow> restored (drop u units) st st'"
  "scheduleActivities parse a cu units u st = Inr (False, st')
     \<Longrightarrow> restored (drop (u + 1) units) st st'"
  "tryCourses parse cs a cu units u st = Inr (False, st')
     \<Longrightarrow> restored (drop (u + 1) units) st st'"
proof (induction parse u units st and parse a cu units u st and parse cs a cu units u st
       arbitrary: st' and st' and st'
       rule: scheduleUnits_scheduleActivities_tryCourses.induct)
  case (1 parse unitIndex units st)
  from "1.prems" show ?case
  proof (cases rule: scheduleUnits_InrE)
    case finished
    then show ?thesis by simp
  next
    case enter
    then have "restored (drop (unitIndex + 1) units) (initializeUnitSchedule (units ! unitIndex) st) st'"
      using "1.IH" by simp
    moreover have "set (drop (unitIndex + 1) units) \<subseteq> set (drop unitIndex units)"
      by (simp add: set_drop_subset_set_drop)
    moreover have "units ! unitIndex \<in> set (drop unitIndex units)"
      using enter(1) by (metis Cons_nth_drop_Suc list.set_intros(1))
    ultimately show ?thesis by (rule restored_initialize)
  qed
next
  case (2 parse activityIndex currentUnit units unitIndex st)
  from "2.prems" show ?case
  proof (cases rule: scheduleActivities_InrE)
    case next_unit
    then show ?thesis using "2.IH"(1) by simp
  next
    case candidates
    then show ?thesis using "2.IH"(2) by simp
  qed
next
  case (3 parse activityIndex currentUnit units unitIndex st)
  then show ?case by (simp add: restored_refl)
next
  case (4 parse course rest activityIndex currentUnit units unitIndex st)
  from "4.prems" show ?case
  proof (cases rule: tryCourses_Cons_InrE)
    case (conflict s e sts)
    then show ?thesis using "4.IH"(3) by simp
  next
    case (commit s e sts st1)
    then show ?thesis by simp
  next
    case (backtrack s e sts st1 st2 st3)
    have "restored (drop (unitIndex + 1) units) st1 st2"
      using "4.IH"(1) [OF backtrack(1) refl backtrack(2,3,4,5)] .
    then have "restored (drop (unitIndex + 1) units) st st3"
      using backtrack(4,6) restored_uncommit by blast
    moreover have "restored (drop (unitIndex + 1) units) st3 st'"
      using "4.IH"(2) [OF backtrack(1) refl backtrack(2,3,4,5) refl refl backtrack(6,7)] .
    ultimately show ?thesis by (rule restored_trans)
  qed
qed

lemma update_existing_keys:
  "map_of al k = Some v \<Longrightarrow> map fst (AList.update k v' al) = map fst al"
  by (induction al) (auto split: if_splits)

lemma scheduleCourse_keys:
  "scheduleCourse code c s e d st = Inr st1
     \<Longrightarrow> map fst (scheduledTimesPerDay st1) = map fst (scheduledTimesPerDay st)"
  by (erule scheduleCourse_Inr) (simp add: update_existing_keys)

lemma unscheduleCourse_keys:
  "unscheduleCourse code d st = Inr st1
     \<Longrightarrow> map fst (scheduledTimesPerDay st1) = map fst (scheduledTimesPerDay st)"
  by (erule unscheduleCourse_Inr) (simp add: update_existing_keys)

lemma search_keys:
  "scheduleUnits parse u units st = Inr (ok, st')
     \<Longrightarrow> map fst (scheduledTimesPerDay st') = map fst (scheduledTimesPerDay st)"
  "scheduleActivities parse a cu units u st = Inr (ok, st')
     \<Longrightarrow> map fst (scheduledTimesPerDay st') = map fst (scheduledTimesPerDay st)"
  "tryCourses parse cs a cu units u st = Inr (ok, st')
     \<Longrightarrow> map fst (scheduledTimesPerDay st') = map fst (scheduledTimesPerDay st)"
proof (induction parse u units st and parse a cu units u st and parse cs a cu units u st
       arbitrary: ok st' and ok st' and ok st'
       rule: scheduleUnits_scheduleActivities_tryCourses.induct)
  case (1 parse unitIndex units st)
  from "1.prems" show ?case
  proof (cases rule: scheduleUnits_InrE)
    case finished
    then show ?thesis by simp
  next
    case enter
    from enter(1) have "\<not> length units \<le> unitIndex" by simp
    from "1.IH" [OF this refl refl refl enter(2)]
    show ?thesis by (simp add: initializeUnitSchedule_def)
  qed
next
  case (2 parse activityIndex currentUnit units unitIndex st)
  from "2.prems" show ?case
  proof (cases rule: scheduleActivities_InrE)
    case next_unit
    from "2.IH"(1) [OF next_unit(1,2)] show ?thesis .
  next
    case candidates
    from candidates(1) have "\<not> length (u_activities currentUnit) \<le> activityIndex" by simp
    from "2.IH"(2) [OF this candidates(2)] show ?thesis .
  qed
next
  case (3 parse activityIndex currentUnit units unitIndex st)
  then show ?case by simp
next
  case (4 parse course rest activityIndex currentUnit units unitIndex st)
  from "4.prems" show ?case
  proof (cases rule: tryCourses_Cons_InrE)
    case (conflict s e sts)
    from conflict(3) have "\<not> \<not> hasTimeConflict sts s e" by simp
    from "4.IH"(3) [OF conflict(1) refl conflict(2) this conflict(4)] show ?thesis .
  next
    case (commit s e sts st1)
    have "map fst (scheduledTimesPerDay st') = map fst (scheduledTimesPerDay st1)"
      using "4.IH"(1) [OF commit(1) refl commit(2,3,4,5)] .
    moreover have "map fst (scheduledTimesPerDay st1) = map fst (scheduledTimesPerDay st)"
      using commit(4) by (rule scheduleCourse_keys)
    ultimately show ?thesis by simp
  next
    case (backtrack s e sts st1 st2 st3)
    have "map fst (scheduledTimesPerDay st2) = map fst (scheduledTimesPerDay st1)"
      using "4.IH"(1) [OF backtrack(1) refl backtrack(2,3,4,5)] .
    moreover have "map fst (scheduledTimesPerDay st1) = map fst (scheduledTimesPerDay st)"
      using backtrack(4) by (rule scheduleCourse_keys)
    moreover have "map fst (scheduledTimesPerDay st3) = map fst (scheduledTimesPerDay st2)"
      using backtrack(6) by (rule unscheduleCourse_keys)
    moreover have "map fst (scheduledTimesPerDay st') = map fst (scheduledTimesPerDay st3)"
      using "4.IH"(2) [OF backtrack(1) refl backtrack(2,3,4,5) refl refl backtrack(6,7)] .
    ultimately show ?thesis by simp
  qed
qed

text \<open>
  C5 (as amended). When a candidate was committed and the call that follows it failed,
  the uncommit leaves the occupied-time index exactly as it was before the candidate was
  tried. Every key of the partial schedule reads as before, or reads the fresh entry
  (its name and an empty course list) of a later unit that the failed call initialised;
  the entry of the current unit reads as before unless a later unit has the same code.
\<close>

theorem uncommit_restores:
  assumes "scheduleCourse (u_unitCode cu) c s e (day c) st = Inr st1"
    and "scheduleActivities parse (a + 1) cu units u st1 = Inr (False, st2)"
    and "unscheduleCourse (u_unitCode cu) (day c) st2 = Inr st3"
  shows "scheduledTimesPerDay st3 = scheduledTimesPerDay st
    \<and> (\<forall>k. map_of (finalSchedule st3) k = map_of (finalSchedule st) k
          \<or> (\<exists>unit \<in> set (drop (u + 1) units). k = u_unitCode unit
                \<and> map_of (finalSchedule st3) k
                    = Some \<lparr>ud_unitName = u_unitName unit, ud_courses = []\<rparr>))
    \<and> (u_unitCode cu \<in> u_unitCode ` set (drop (u + 1) units)
        \<or> map_of (finalSchedule st3) (u_unitCode cu) = map_of (finalSchedule st) (u_unitCode cu))"
proof -
  have "restored (drop (u + 1) units) st1 st2"
    using assms(2) by (rule search_restores)
  with assms(1,3) have r: "restored (drop (u + 1) units) st st3"
    using restored_uncommit by blast
  then show ?thesis unfolding restored_def by blast
qed

lemma ex_commit:
  "scheduleCourse (u_unitCode unitA) (session ''A'' ''a1'' ''LEC'' ''MON'' ''9:00am - 10:00am'')
     (Some 32400000) (Some 36000000)
     (day (session ''A'' ''a1'' ''LEC'' ''MON'' ''9:00am - 10:00am'')) stateA = Inr stateA1"
  by code_simp

lemma ex_fail:
  "scheduleActivities parseCourseTimes (0 + 1) unitA [unitA, unitB] 0 stateA1 = Inr (False, stateA2)"
  by code_simp

lemma ex_uncommit:
  "unscheduleCourse (u_unitCode unitA)
     (day (session ''A'' ''a1'' ''LEC'' ''MON'' ''9:00am - 10:00am'')) stateA2 = Inr stateA3"
  by code_simp

text \<open>The theorem at the run of unit A followed by unit B, both on Monday 9 to 10.\<close>

theorem uncommit_restores_witness:
  "scheduledTimesPerDay stateA3 = scheduledTimesPerDay stateA
   \<and> map_of (finalSchedule stateA3) ''A'' = map_of (finalSchedule stateA) ''A''
   \<and> map_of (finalSchedule stateA3) ''B'' = Some \<lparr>ud_unitName = ''Unit B'', ud_courses = []\<rparr>"
proof -
  have "u_unitCode unitA \<notin> u_unitCode ` set (drop (0 + 1) [unitA, unitB])"
    by (simp add: unitA_def unitB_def)
  moreover have "u_unitCode unitA = ''A''" by (simp add: unitA_def)
  moreover have "map_of (finalSchedule stateA3) ''B'' = Some \<lparr>ud_unitName = ''Unit B'', ud_courses = []\<rparr>"
    by (simp add: stateA3_def)
  ultimately show ?thesis
    using uncommit_restores [OF ex_commit ex_fail ex_uncommit] by simp
qed

text \<open>
  The same run shows that the state after the uncommit is not the state before the
  candidate was tried: the entry that the failed call initialised for unit B stays.
\<close>

theorem uncommit_not_exact:
  "scheduleCourse (u_unitCode unitA) (session ''A'' ''a1'' ''LEC'' ''MON'' ''9:00am - 10:00am'')
     (Some 32400000) (Some 36000000)
     (day (session ''A'' ''a1'' ''LEC'' ''MON'' ''9:00am - 10:00am'')) stateA = Inr stateA1
   \<and> scheduleActivities parseCourseTimes (0 + 1) unitA [unitA, unitB] 0 stateA1
       = Inr (False, stateA2)
   \<and> unscheduleCourse (u_unitCode unitA)
       (day (session ''A'' ''a1'' ''LEC'' ''MON'' ''9:00am - 10:00am'')) stateA2 = Inr stateA3
   \<and> stateA3 \<noteq> stateA
   \<and> map_of (finalSchedule stateA) ''B'' = None
   \<and> map_of (finalSchedule stateA3) ''B'' = Some \<lparr>ud_unitName = ''Unit B'', ud_courses = []\<rparr>"
proof -
  have "stateA3 \<noteq> stateA" by (simp add: stateA3_def stateA_def)
  then show ?thesis
    using ex_commit ex_fail ex_uncommit by (simp add: stateA3_def stateA_def)
qed

subsection \<open>Unfolding the log\<close>

lemma logUnits_memE [consumes 1, case_names entered inner]:
  assumes "ev \<in> set (logUnits parse u units st)"
  obtains "u < length units" "ev = Entered (initializeUnitSchedule (units ! u) st)"
  | "u < length units"
    "ev \<in> set (logActivities parse 0
       ((units ! u)\<lparr>u_activities := sortActivitiesByCourseOptions (u_activities (units ! u))\<rparr>)
       units u (initializeUnitSchedule (units ! u) st))"
  using assms by (subst (asm) logUnits.simps) (auto simp: Let_def split: if_splits)

lemma logActivities_memE [consumes 1, case_names next_unit candidates]:
  assumes "ev \<in> set (logActivities parse a cu units u st)"
  obtains "length (u_activities cu) \<le> a" "ev \<in> set (logUnits parse (u + 1) units st)"
  | "a < length (u_activities cu)"
    "ev \<in> set (logCourses parse (ag_courses (u_activities cu ! a)) a cu units u st)"
  using assms by (subst (asm) logActivities.simps) (auto split: if_splits)

lemma logCourses_Cons_memE
  [consumes 1, case_names tried conflict committed inner uncommitted rest]:
  assumes "ev \<in> set (logCourses parse (c # rest) a cu units u st)"
  obtains "ev = Tried c st"
  | s e sts where
      "parse (time c) = Inr (s, e)"
      "map_of (scheduledTimesPerDay st) (day c) = Some sts"
      "hasTimeConflict sts s e"
      "ev \<in> set (logCourses parse rest a cu units u st)"
  | s e sts st1 where
      "parse (time c) = Inr (s, e)"
      "map_of (scheduledTimesPerDay st) (day c) = Some sts"
      "\<not> hasTimeConflict sts s e"
      "scheduleCourse (u_unitCode cu) c s e (day c) st = Inr st1"
      "ev = Committed st1"
  | s e sts st1 where
      "parse (time c) = Inr (s, e)"
      "map_of (scheduledTimesPerDay st) (day c) = Some sts"
      "\<not> hasTimeConflict sts s e"
      "scheduleCourse (u_unitCode cu) c s e (day c) st = Inr st1"
      "ev \<in> set (logActivities parse (a + 1) cu units u st1)"
  | s e sts st1 st2 st3 where
      "parse (time c) = Inr (s, e)"
      "map_of (scheduledTimesPerDay st) (day c) = Some sts"
      "\<not> hasTimeConflict sts s e"
      "scheduleCourse (u_unitCode cu) c s e (day c) st = Inr st1"
      "scheduleActivities parse (a + 1) cu units u st1 = Inr (False, st2)"
      "unscheduleCourse (u_unitCode cu) (day c) st2 = Inr st3"
      "ev = Uncommitted st3"
  | s e sts st1 st2 st3 where
      "parse (time c) = Inr (s, e)"
      "map_of (scheduledTimesPerDay st) (day c) = Some sts"
      "\<not> hasTimeConflict sts s e"
      "scheduleCourse (u_unitCode cu) c s e (day c) st = Inr st1"
      "scheduleActivities parse (a + 1) cu units u st1 = Inr (False, st2)"
      "unscheduleCourse (u_unitCode cu) (day c) st2 = Inr st3"
      "ev \<in> set (logCourses parse rest a cu units u st3)"
proof (cases "parse (time c)")
  case (Inl err)
  with assms have "ev = Tried c st" by simp
  then show thesis by (rule that(1))
next
  case (Inr se)
  obtain s e where "se = (s, e)" by (cases se)
  with Inr have p: "parse (time c) = Inr (s, e)" by simp
  show thesis
  proof (cases "map_of (scheduledTimesPerDay st) (day c)")
    case None
    with assms p have "ev = Tried c st" by simp
    then show thesis by (rule that(1))
  next
    case (Some sts)
    show thesis
    proof (cases "hasTimeConflict sts s e")
      case True
      with assms p Some
      have "ev = Tried c st \<or> ev \<in> set (logCourses parse rest a cu units u st)" by simp
      then show thesis using that(1) that(2) [OF p Some True] by blast
    next
      case False
      show thesis
      proof (cases "scheduleCourse (u_unitCode cu) c s e (day c) st")
        case (Inl err)
        with assms p Some False have "ev = Tried c st" by simp
        then show thesis by (rule that(1))
      next
        case commit: (Inr st1)
        have early: thesis
          if "ev = Tried c st \<or> ev = Committed st1
                \<or> ev \<in> set (logActivities parse (a + 1) cu units u st1)"
          using that \<open>ev = Tried c st \<Longrightarrow> thesis\<close>
            \<open>\<And>s e sts st1. \<lbrakk>parse (time c) = Inr (s, e);
               map_of (scheduledTimesPerDay st) (day c) = Some sts; \<not> hasTimeConflict sts s e;
               scheduleCourse (u_unitCode cu) c s e (day c) st = Inr st1; ev = Committed st1\<rbrakk>
               \<Longrightarrow> thesis\<close> [OF p Some False commit]
            \<open>\<And>s e sts st1. \<lbrakk>parse (time c) = Inr (s, e);
               map_of (scheduledTimesPerDay st) (day c) = Some sts; \<not> hasTimeConflict sts s e;
               scheduleCourse (u_unitCode cu) c s e (day c) st = Inr st1;
               ev \<in> set (logActivities parse (a + 1) cu units u st1)\<rbrakk>
               \<Longrightarrow> thesis\<close> [OF p Some False commit]
          by blast
        show thesis
        proof (cases "scheduleActivities parse (a + 1) cu units u st1")
          case (Inl err)
          with assms p Some False commit
          have "ev = Tried c st \<or> ev = Committed st1
                \<or> ev \<in> set (logActivities parse (a + 1) cu units u st1)" by simp
          then show thesis by (rule early)
        next
          case (Inr r)
          obtain ok st2 where "r = (ok, st2)" by (cases r)
          with Inr have rec: "scheduleActivities parse (a + 1) cu units u st1 = Inr (ok, st2)"
            by simp
          show thesis
          proof (cases ok)
            case True
            with assms p Some False commit rec
            have "ev = Tried c st \<or> ev = Committed st1
                  \<or> ev \<in> set (logActivities parse (a + 1) cu units u st1)" by auto
            then show thesis by (rule early)
          next
            case notok: False
            with rec have rec': "scheduleActivities parse (a + 1) cu units u st1 = Inr (False, st2)"
              by simp
            show thesis
            proof (cases "unscheduleCourse (u_unitCode cu) (day c) st2")
              case (Inl err)
              with assms p Some False commit rec'
              have "ev = Tried c st \<or> ev = Committed st1
                    \<or> ev \<in> set (logActivities parse (a + 1) cu units u st1)" by auto
              then show thesis by (rule early)
            next
              case uncommit: (Inr st3)
              with assms p Some False commit rec'
              have "(ev = Tried c st \<or> ev = Committed st1
                      \<or> ev \<in> set (logActivities parse (a + 1) cu units u st1))
                    \<or> ev = Uncommitted st3
                    \<or> ev \<in> set (logCourses parse rest a cu units u st3)" by auto
              then show thesis
                using early that(5) [OF p Some False commit rec' uncommit]
                  that(6) [OF p Some False commit rec' uncommit] by blast
            qed
          qed
        qed
      qed
    qed
  qed
qed

lemma scheduleUnits_enter:
  "u < length units \<Longrightarrow>
   scheduleUnits parse u units st =
     scheduleActivities parse 0
       ((units ! u)\<lparr>u_activities := sortActivitiesByCourseOptions (u_activities (units ! u))\<rparr>)
       units u (initializeUnitSchedule (units ! u) st)"
  by (subst scheduleUnits.simps) (simp add: Let_def)

lemma scheduleActivities_next:
  "length (u_activities cu) \<le> a \<Longrightarrow>
   scheduleActivities parse a cu units u st = scheduleUnits parse (u + 1) units st"
  by (subst scheduleActivities.simps) simp

lemma scheduleActivities_candidates:
  "a < length (u_activities cu) \<Longrightarrow>
   scheduleActivities parse a cu units u st =
     tryCourses parse (ag_courses (u_activities cu ! a)) a cu units u st"
  by (subst scheduleActivities.simps) simp

subsection \<open>A candidate that cannot be parsed\<close>

lemma tried_error_aborts:
  "Tried c s \<in> set (logUnits parse u units st) \<Longrightarrow> parse (time c) = Inl err
     \<Longrightarrow> scheduleUnits parse u units st = Inl err"
  "Tried c s \<in> set (logActivities parse a cu units u st) \<Longrightarrow> parse (time c) = Inl err
     \<Longrightarrow> scheduleActivities parse a cu units u st = Inl err"
  "Tried c s \<in> set (logCourses parse cs a cu units u st) \<Longrightarrow> parse (time c) = Inl err
     \<Longrightarrow> tryCourses parse cs a cu units u st = Inl err"
proof (induction parse u units st and parse a cu units u st and parse cs a cu units u st
       rule: scheduleUnits_scheduleActivities_tryCourses.induct)
  case (1 parse unitIndex units st)
  from "1.prems"(1) show ?case
  proof (cases rule: logUnits_memE)
    case entered
    then show ?thesis by simp
  next
    case inner
    from inner(1) have "\<not> length units \<le> unitIndex" by simp
    from "1.IH" [OF this refl refl refl inner(2) "1.prems"(2)]
    show ?thesis using inner(1) by (simp add: scheduleUnits_enter)
  qed
next
  case (2 parse activityIndex currentUnit units unitIndex st)
  from "2.prems"(1) show ?case
  proof (cases rule: logActivities_memE)
    case next_unit
    from "2.IH"(1) [OF next_unit(1,2) "2.prems"(2)]
    show ?thesis using next_unit(1) by (simp add: scheduleActivities_next)
  next
    case candidates
    from candidates(1) have "\<not> length (u_activities currentUnit) \<le> activityIndex" by simp
    from "2.IH"(2) [OF this candidates(2) "2.prems"(2)]
    show ?thesis using candidates(1) by (simp add: scheduleActivities_candidates)
  qed
next
  case (3 parse activityIndex currentUnit units unitIndex st)
  then show ?case by simp
next
  case (4 parse course rest activityIndex currentUnit units unitIndex st)
  from "4.prems"(1) show ?case
  proof (cases rule: logCourses_Cons_memE)
    case tried
    with "4.prems"(2) show ?thesis by simp
  next
    case (conflict s e sts)
    from conflict(3) have "\<not> \<not> hasTimeConflict sts s e" by simp
    from "4.IH"(3) [OF conflict(1) refl conflict(2) this conflict(4) "4.prems"(2)]
    show ?thesis using conflict(1,2,3) by simp
  next
    case (committed s e sts st1)
    then show ?thesis by simp
  next
    case (inner s e sts st1)
    from "4.IH"(1) [OF inner(1) refl inner(2,3,4,5) "4.prems"(2)]
    show ?thesis using inner(1,2,3,4) by simp
  next
    case (uncommitted s e sts st1 st2 st3)
    then show ?thesis by simp
  next
    case (rest s e sts st1 st2 st3)
    from "4.IH"(2) [OF rest(1) refl rest(2,3,4,5) refl refl rest(6,7) "4.prems"(2)]
    show ?thesis using rest(1,2,3,4,5,6) by simp
  qed
qed

subsection \<open>A candidate on a day the index does not have\<close>

lemma tried_missing_day:
  "Tried c s \<in> set (logUnits parse u units st) \<Longrightarrow> parse (time c) = Inr se
     \<Longrightarrow> day c \<notin> set (map fst (scheduledTimesPerDay st))
     \<Longrightarrow> scheduleUnits parse u units st = Inl TypeError"
  "Tried c s \<in> set (logActivities parse a cu units u st) \<Longrightarrow> parse (time c) = Inr se
     \<Longrightarrow> day c \<notin> set (map fst (scheduledTimesPerDay st))
     \<Longrightarrow> scheduleActivities parse a cu units u st = Inl TypeError"
  "Tried c s \<in> set (logCourses parse cs a cu units u st) \<Longrightarrow> parse (time c) = Inr se
     \<Longrightarrow> day c \<notin> set (map fst (scheduledTimesPerDay st))
     \<Longrightarrow> tryCourses parse cs a cu units u st = Inl TypeError"
proof (induction parse u units st and parse a cu units u st and parse cs a cu units u st
       rule: scheduleUnits_scheduleActivities_tryCourses.induct)
  case (1 parse unitIndex units st)
  from "1.prems"(1) show ?case
  proof (cases rule: logUnits_memE)
    case entered
    then show ?thesis by simp
  next
    case inner
    from inner(1) have n: "\<not> length units \<le> unitIndex" by simp
    have "day c \<notin> set (map fst (scheduledTimesPerDay (initializeUnitSchedule (units ! unitIndex) st)))"
      using "1.prems"(3) by (simp add: initializeUnitSchedule_def)
    from "1.IH" [OF n refl refl refl inner(2) "1.prems"(2) this]
    show ?thesis using inner(1) by (simp add: scheduleUnits_enter)
  qed
next
  case (2 parse activityIndex currentUnit units unitIndex st)
  from "2.prems"(1) show ?case
  proof (cases rule: logActivities_memE)
    case next_unit
    from "2.IH"(1) [OF next_unit(1,2) "2.prems"(2,3)]
    show ?thesis using next_unit(1) by (simp add: scheduleActivities_next)
  next
    case candidates
    from candidates(1) have "\<not> length (u_activities currentUnit) \<le> activityIndex" by simp
    from "2.IH"(2) [OF this candidates(2) "2.prems"(2,3)]
    show ?thesis using candidates(1) by (simp add: scheduleActivities_candidates)
  qed
next
  case (3 parse activityIndex currentUnit units unitIndex st)
  then show ?case by simp
next
  case (4 parse course rest activityIndex currentUnit units unitIndex st)
  from "4.prems"(1) show ?case
  proof (cases rule: logCourses_Cons_memE)
    case tried
    then have "map_of (scheduledTimesPerDay st) (day course) = None"
      using "4.prems"(3) by (simp add: map_of_eq_None_iff)
    with tried "4.prems"(2) show ?thesis by (cases se) simp
  next
    case (conflict s e sts)
    from conflict(3) have "\<not> \<not> hasTimeConflict sts s e" by simp
    from "4.IH"(3) [OF conflict(1) refl conflict(2) this conflict(4) "4.prems"(2,3)]
    show ?thesis using conflict(1,2,3) by simp
  next
    case (committed s e sts st1)
    then show ?thesis by simp
  next
    case (inner s e sts st1)
    have "day c \<notin> set (map fst (scheduledTimesPerDay st1))"
      using "4.prems"(3) scheduleCourse_keys [OF inner(4)] by simp
    from "4.IH"(1) [OF inner(1) refl inner(2,3,4,5) "4.prems"(2) this]
    show ?thesis using inner(1,2,3,4) by simp
  next
    case (uncommitted s e sts st1 st2 st3)
    then show ?thesis by simp
  next
    case (rest s e sts st1 st2 st3)
    have "day c \<notin> set (map fst (scheduledTimesPerDay st3))"
      using "4.prems"(3) scheduleCourse_keys [OF rest(4)] search_keys(2) [OF rest(5)]
        unscheduleCourse_keys [OF rest(6)] by simp
    from "4.IH"(2) [OF rest(1) refl rest(2,3,4,5) refl refl rest(6,7) "4.prems"(2) this]
    show ?thesis using rest(1,2,3,4,5,6) by simp
  qed
qed

lemma filterCourseList_error:
  assumes "buildUnits (objectEntries courseList) = Inr units0"
    and "scheduleUnits parseCourseTimes 0 (sortUnits units0) initialState = Inl err"
  shows "filterCourseList courseList start end' days classesPerDay backToBack = Inl err"
  using assms by (simp add: filterCourseList_def initialState_def)

lemma splitDash_nonempty: "splitDash acc t \<noteq> []"
  by (induction acc t rule: splitDash.induct) auto

lemma parseCourseTimes_error_iff:
  "parseCourseTimes t = Inl err \<longleftrightarrow>
     (\<exists>p0 ps. splitDash [] t = p0 # ps
        \<and> (\<not> matchesPattern (trim p0) \<and> err = InvalidTimeFormat p0
           \<or> matchesPattern (trim p0) \<and> ps = [] \<and> err = TypeError
           \<or> matchesPattern (trim p0)
               \<and> (\<exists>p1 r. ps = p1 # r \<and> \<not> matchesPattern (trim p1)
                      \<and> err = InvalidTimeFormat p1)))"
proof -
  obtain p0 ps where sp: "splitDash [] t = p0 # ps"
    using splitDash_nonempty [of "[]" t] by (cases "splitDash [] t") auto
  show ?thesis
  proof (cases "convertTo24Hour p0")
    case (Inl e0)
    then have "\<not> matchesPattern (trim p0)" "e0 = InvalidTimeFormat p0"
      by (simp_all add: convertTo24Hour_Inl_iff)
    with sp Inl show ?thesis by (auto simp: parseCourseTimes_def)
  next
    case (Inr r0)
    then have "convertTo24Hour p0 \<noteq> Inl (InvalidTimeFormat p0)" by simp
    then have m0: "matchesPattern (trim p0)" by (simp add: convertTo24Hour_Inl_iff)
    show ?thesis
    proof (cases ps)
      case Nil
      with sp Inr m0 show ?thesis by (auto simp: parseCourseTimes_def)
    next
      case (Cons p1 r)
      show ?thesis
      proof (cases "convertTo24Hour p1")
        case (Inl e1)
        then have "\<not> matchesPattern (trim p1)" "e1 = InvalidTimeFormat p1"
          by (simp_all add: convertTo24Hour_Inl_iff)
        with sp Inr m0 Cons Inl show ?thesis by (auto simp: parseCourseTimes_def)
      next
        case r1: (Inr r1)
        then have "convertTo24Hour p1 \<noteq> Inl (InvalidTimeFormat p1)" by simp
        then have "matchesPattern (trim p1)" by (simp add: convertTo24Hour_Inl_iff)
        with sp Inr m0 Cons r1 show ?thesis by (auto simp: parseCourseTimes_def)
      qed
    qed
  qed
qed

text \<open>
  C4 (as amended). The time text of a session is parsed when the search tries the
  session as a candidate, not before. When the search tries a candidate whose time text
  fails with InvalidTimeFormat, the exception leaves the top-level call: the result is
  that error, not the infeasibility marker and not a schedule. The parser fails with
  InvalidTimeFormat exactly when the first piece of the text (split at the separator)
  does not have the shape of a clock time, or the first has it and the second piece
  exists and does not.
\<close>

theorem invalid_time_aborts:
  assumes "buildUnits (objectEntries courseList) = Inr units0"
    and "Tried c s \<in> set (logUnits parseCourseTimes 0 (sortUnits units0) initialState)"
    and "parseCourseTimes (time c) = Inl (InvalidTimeFormat x)"
  shows "filterCourseList courseList start end' days classesPerDay backToBack
           = Inl (InvalidTimeFormat x)
    \<and> Inl (InvalidTimeFormat x) \<noteq> (Inr None :: error + FilteredCourseList option)
    \<and> (parseCourseTimes t = Inl (InvalidTimeFormat y) \<longleftrightarrow>
         (\<exists>p0 ps. splitDash [] t = p0 # ps
            \<and> (\<not> matchesPattern (trim p0) \<and> y = p0
               \<or> matchesPattern (trim p0)
                   \<and> (\<exists>p1 r. ps = p1 # r \<and> \<not> matchesPattern (trim p1) \<and> y = p1))))"
proof -
  have "scheduleUnits parseCourseTimes 0 (sortUnits units0) initialState
          = Inl (InvalidTimeFormat x)"
    using assms(2,3) by (rule tried_error_aborts)
  with assms(1)
  have "filterCourseList courseList start end' days classesPerDay backToBack
          = Inl (InvalidTimeFormat x)"
    by (rule filterCourseList_error)
  then show ?thesis using parseCourseTimes_error_iff [of t "InvalidTimeFormat y"] by simp
qed

text \<open>The scenario of the specification: one session with the time 9:00 - 10:00am.\<close>

theorem invalid_time_aborts_witness:
  "filterCourseList
     (singleUnit [session ''CS101'' ''1'' ''LEC'' ''MON'' ''9:00 - 10:00am'']) [] [] [] 0 False
     = Inl (InvalidTimeFormat ''9:00'')"
proof -
  have b: "buildUnits
             (objectEntries (singleUnit [session ''CS101'' ''1'' ''LEC'' ''MON'' ''9:00 - 10:00am'']))
           = Inr [\<lparr>u_unitCode = ''CS101'', u_unitName = ''CS101 Computing'',
                   u_activities =
                     [\<lparr>activityType = ''LEC'',
                       ag_courses = [session ''CS101'' ''1'' ''LEC'' ''MON'' ''9:00 - 10:00am'']\<rparr>]\<rparr>]"
    by code_simp
  have l: "Tried (session ''CS101'' ''1'' ''LEC'' ''MON'' ''9:00 - 10:00am'') stateCS101
           \<in> set (logUnits parseCourseTimes 0
                    (sortUnits
                       [\<lparr>u_unitCode = ''CS101'', u_unitName = ''CS101 Computing'',
                         u_activities =
                           [\<lparr>activityType = ''LEC'',
                             ag_courses =
                               [session ''CS101'' ''1'' ''LEC'' ''MON'' ''9:00 - 10:00am'']\<rparr>]\<rparr>])
                    initialState)"
    by code_simp
  have p: "parseCourseTimes (time (session ''CS101'' ''1'' ''LEC'' ''MON'' ''9:00 - 10:00am''))
           = Inl (InvalidTimeFormat ''9:00'')"
    by code_simp
  from invalid_time_aborts [OF b l p] show ?thesis by blast
qed

text \<open>
  A course list that contains a session with that time and still gets a schedule: the
  first candidate of the activity fits, so the second is never parsed.
\<close>

theorem invalid_time_not_reached:
  "filterCourseList
     (singleUnit [session ''CS101'' ''1'' ''LEC'' ''MON'' ''9:00am - 10:00am'',
                  session ''CS101'' ''2'' ''LEC'' ''TUE'' ''9:00 - 10:00am'']) [] [] [] 0 False
     = Inr (Some [(''CS101'',
                   \<lparr>ud_unitName = ''CS101 Computing'',
                    ud_courses = [session ''CS101'' ''1'' ''LEC'' ''MON'' ''9:00am - 10:00am'']\<rparr>)])
   \<and> parseCourseTimes (time (session ''CS101'' ''2'' ''LEC'' ''TUE'' ''9:00 - 10:00am''))
       = Inl (InvalidTimeFormat ''9:00'')
   \<and> \<not> matchesPattern (trim ''9:00'')"
proof -
  have a: "filterCourseList
     (singleUnit [session ''CS101'' ''1'' ''LEC'' ''MON'' ''9:00am - 10:00am'',
                  session ''CS101'' ''2'' ''LEC'' ''TUE'' ''9:00 - 10:00am'']) [] [] [] 0 False
     = Inr (Some [(''CS101'',
                   \<lparr>ud_unitName = ''CS101 Computing'',
                    ud_courses = [session ''CS101'' ''1'' ''LEC'' ''MON'' ''9:00am - 10:00am'']\<rparr>)])"
    by code_simp
  have b: "parseCourseTimes (time (session ''CS101'' ''2'' ''LEC'' ''TUE'' ''9:00 - 10:00am''))
       = Inl (InvalidTimeFormat ''9:00'')"
    by code_simp
  have "convertTo24Hour ''9:00'' = Inl (InvalidTimeFormat ''9:00'')" by code_simp
  then have c: "\<not> matchesPattern (trim ''9:00'')" by (simp add: convertTo24Hour_Inl_iff)
  from a b c show ?thesis by blast
qed

text \<open>
  C10 (as amended). The occupied-time index is created with exactly the five keys MON,
  TUE, WED, THU and FRI. When the search tries a candidate whose day tag is any other
  text (and whose time text parses), the conflict check finds no array for that day and
  the scheduler throws a TypeError: it returns neither a schedule nor the infeasibility
  marker.
\<close>

theorem weekday_only_index:
  assumes "buildUnits (objectEntries courseList) = Inr units0"
    and "Tried c s \<in> set (logUnits parseCourseTimes 0 (sortUnits units0) initialState)"
    and "parseCourseTimes (time c) = Inr se"
    and "day c \<notin> set [''MON'', ''TUE'', ''WED'', ''THU'', ''FRI'']"
  shows "map fst (scheduledTimesPerDay initialState) = [''MON'', ''TUE'', ''WED'', ''THU'', ''FRI'']
    \<and> filterCourseList courseList start end' days classesPerDay backToBack = Inl TypeError"
proof -
  have k: "map fst (scheduledTimesPerDay initialState) = [''MON'', ''TUE'', ''WED'', ''THU'', ''FRI'']"
    by (simp add: initialState_def initialTimes_def)
  with assms(4) have "day c \<notin> set (map fst (scheduledTimesPerDay initialState))" by simp
  with assms(2,3)
  have "scheduleUnits parseCourseTimes 0 (sortUnits units0) initialState = Inl TypeError"
    by (rule tried_missing_day)
  with assms(1)
  have "filterCourseList courseList start end' days classesPerDay backToBack = Inl TypeError"
    by (rule filterCourseList_error)
  with k show ?thesis by blast
qed

text \<open>One session on Saturday.\<close>

theorem weekday_only_index_witness:
  "filterCourseList
     (singleUnit [session ''CS101'' ''1'' ''LEC'' ''SAT'' ''9:00am - 10:00am'']) [] [] [] 0 False
     = Inl TypeError"
proof -
  have b: "buildUnits
             (objectEntries (singleUnit [session ''CS101'' ''1'' ''LEC'' ''SAT'' ''9:00am - 10:00am'']))
           = Inr [\<lparr>u_unitCode = ''CS101'', u_unitName = ''CS101 Computing'',
                   u_activities =
                     [\<lparr>activityType = ''LEC'',
                       ag_courses = [session ''CS101'' ''1'' ''LEC'' ''SAT'' ''9:00am - 10:00am'']\<rparr>]\<rparr>]"
    by code_simp
  have l: "Tried (session ''CS101'' ''1'' ''LEC'' ''SAT'' ''9:00am - 10:00am'') stateCS101
           \<in> set (logUnits parseCourseTimes 0
                    (sortUnits
                       [\<lparr>u_unitCode = ''CS101'', u_unitName = ''CS101 Computing'',
                         u_activities =
                           [\<lparr>activityType = ''LEC'',
                             ag_courses =
                               [session ''CS101'' ''1'' ''LEC'' ''SAT'' ''9:00am - 10:00am'']\<rparr>]\<rparr>])
                    initialState)"
    by code_simp
  have p: "parseCourseTimes (time (session ''CS101'' ''1'' ''LEC'' ''SAT'' ''9:00am - 10:00am''))
           = Inr (Some 32400000, Some 36000000)"
    by code_simp
  have d: "day (session ''CS101'' ''1'' ''LEC'' ''SAT'' ''9:00am - 10:00am'')
           \<notin> set [''MON'', ''TUE'', ''WED'', ''THU'', ''FRI'']"
    by (simp add: session_def)
  from weekday_only_index [OF b l p d] show ?thesis by blast
qed

text \<open>
  A course list with a Saturday session that gets a schedule: the Monday session of the
  same activity is tried first and fits.
\<close>

theorem saturday_not_reached:
  "filterCourseList
     (singleUnit [session ''CS101'' ''1'' ''LEC'' ''MON'' ''9:00am - 10:00am'',
                  session ''CS101'' ''2'' ''LEC'' ''SAT'' ''9:00am - 10:00am'']) [] [] [] 0 False
     = Inr (Some [(''CS101'',
                   \<lparr>ud_unitName = ''CS101 Computing'',
                    ud_courses = [session ''CS101'' ''1'' ''LEC'' ''MON'' ''9:00am - 10:00am'']\<rparr>)])
   \<and> day (session ''CS101'' ''2'' ''LEC'' ''SAT'' ''9:00am - 10:00am'') = ''SAT''"
proof -
  have a: "filterCourseList
     (singleUnit [session ''CS101'' ''1'' ''LEC'' ''MON'' ''9:00am - 10:00am'',
                  session ''CS101'' ''2'' ''LEC'' ''SAT'' ''9:00am - 10:00am'']) [] [] [] 0 False
     = Inr (Some [(''CS101'',
                   \<lparr>ud_unitName = ''CS101 Computing'',
                    ud_courses = [session ''CS101'' ''1'' ''LEC'' ''MON'' ''9:00am - 10:00am'']\<rparr>)])"
    by code_simp
  then show ?thesis by (simp add: session_def)
qed

subsection \<open>Soundness of the search\<close>

lemma coursesOf_update:
  "coursesOf (AList.update code entry fs) k
     = (if k = code then ud_courses entry else coursesOf fs k)"
  by (simp add: coursesOf_def update_conv')

lemma timesOf_update:
  "timesOf (AList.update d sts idx) d' = (if d' = d then sts else timesOf idx d')"
  by (simp add: timesOf_def update_conv')

lemma restored_coursesOf:
  assumes "restored later st st'"
  shows "coursesOf (finalSchedule st') k = coursesOf (finalSchedule st) k
         \<or> coursesOf (finalSchedule st') k = []"
proof -
  from assms have "map_of (finalSchedule st') k = map_of (finalSchedule st) k
     \<or> (\<exists>unit \<in> set later. k = u_unitCode unit
          \<and> map_of (finalSchedule st') k = Some \<lparr>ud_unitName = u_unitName unit, ud_courses = []\<rparr>)"
    by (simp add: restored_def)
  then show ?thesis by (auto simp: coursesOf_def)
qed

lemma covered_restored:
  assumes "restored later st st'" "covered parse st"
  shows "covered parse st'"
  unfolding covered_def
proof (intro allI ballI)
  fix k c
  assume c: "c \<in> set (coursesOf (finalSchedule st') k)"
  with restored_coursesOf [OF assms(1), of k]
  have "c \<in> set (coursesOf (finalSchedule st) k)" by auto
  with assms(2) have "\<exists>x \<in> set (timesOf (scheduledTimesPerDay st) (day c)).
          parse (time c) = Inr (st_start x, st_end x)"
    by (simp add: covered_def)
  moreover from assms(1) have "scheduledTimesPerDay st' = scheduledTimesPerDay st"
    by (simp add: restored_def)
  ultimately show "\<exists>x \<in> set (timesOf (scheduledTimesPerDay st') (day c)).
          parse (time c) = Inr (st_start x, st_end x)"
    by simp
qed

lemma noOverlap_shrink:
  assumes "\<And>k. coursesOf fs' k = coursesOf fs k \<or> coursesOf fs' k = []"
    and "noOverlap parse fs"
  shows "noOverlap parse fs'"
  unfolding noOverlap_def
proof (intro allI impI)
  fix k1 i1 k2 i2
  assume i1: "i1 < length (coursesOf fs' k1)" and i2: "i2 < length (coursesOf fs' k2)"
    and ne: "(k1, i1) \<noteq> (k2, i2)"
    and d: "day (coursesOf fs' k1 ! i1) = day (coursesOf fs' k2 ! i2)"
  from i1 assms(1) [of k1] have e1: "coursesOf fs' k1 = coursesOf fs k1" by auto
  from i2 assms(1) [of k2] have e2: "coursesOf fs' k2 = coursesOf fs k2" by auto
  from assms(2) i1 i2 ne d e1 e2
  show "\<exists>s1 e1 s2 e2.
           parse (time (coursesOf fs' k1 ! i1)) = Inr (s1, e1)
         \<and> parse (time (coursesOf fs' k2 ! i2)) = Inr (s2, e2)
         \<and> \<not> (dateLt s1 e2 \<and> dateGt e1 s2)"
    unfolding noOverlap_def by simp
qed

lemma noOverlap_restored:
  assumes "restored later st st'" "noOverlap parse (finalSchedule st)"
  shows "noOverlap parse (finalSchedule st')"
  using restored_coursesOf [OF assms(1)] assms(2) by (rule noOverlap_shrink)

lemma covered_initialize:
  assumes "covered parse st"
  shows "covered parse (initializeUnitSchedule unit st)"
  using assms
  by (auto simp: covered_def initializeUnitSchedule_def coursesOf_update split: if_splits)

lemma noOverlap_initialize:
  assumes "noOverlap parse (finalSchedule st)"
  shows "noOverlap parse (finalSchedule (initializeUnitSchedule unit st))"
proof (rule noOverlap_shrink [OF _ assms])
  fix k
  show "coursesOf (finalSchedule (initializeUnitSchedule unit st)) k = coursesOf (finalSchedule st) k
        \<or> coursesOf (finalSchedule (initializeUnitSchedule unit st)) k = []"
    by (simp add: initializeUnitSchedule_def coursesOf_update)
qed

lemma scheduleCourse_coursesOf:
  assumes "scheduleCourse code c s e d st = Inr st1"
  shows "coursesOf (finalSchedule st1) k
           = (if k = code then coursesOf (finalSchedule st) code @ [c]
              else coursesOf (finalSchedule st) k)"
  using assms
  by (elim scheduleCourse_Inr) (simp add: coursesOf_update, simp add: coursesOf_def)

lemma scheduleCourse_timesOf:
  assumes "scheduleCourse code c s e d st = Inr st1"
  shows "timesOf (scheduledTimesPerDay st1) d'
           = (if d' = d
              then timesOf (scheduledTimesPerDay st) d
                   @ [\<lparr>st_start = s, st_end = e, st_unitCode = code, st_activity = activity c\<rparr>]
              else timesOf (scheduledTimesPerDay st) d')"
  using assms
  by (elim scheduleCourse_Inr) (simp add: timesOf_update, simp add: timesOf_def)

lemma covered_commit:
  assumes cov: "covered parse st"
    and p: "parse (time c) = Inr (s, e)"
    and commit: "scheduleCourse code c s e (day c) st = Inr st1"
  shows "covered parse st1"
  unfolding covered_def
proof (intro allI ballI)
  fix k c'
  assume c': "c' \<in> set (coursesOf (finalSchedule st1) k)"
  let ?x = "\<lparr>st_start = s, st_end = e, st_unitCode = code, st_activity = activity c\<rparr>"
  from c' scheduleCourse_coursesOf [OF commit, of k]
  have "c' \<in> set (coursesOf (finalSchedule st) k) \<or> c' = c" by (auto split: if_splits)
  then show "\<exists>x \<in> set (timesOf (scheduledTimesPerDay st1) (day c')).
          parse (time c') = Inr (st_start x, st_end x)"
  proof
    assume "c' \<in> set (coursesOf (finalSchedule st) k)"
    with cov obtain x where "x \<in> set (timesOf (scheduledTimesPerDay st) (day c'))"
      "parse (time c') = Inr (st_start x, st_end x)"
      unfolding covered_def by blast
    then show ?thesis using scheduleCourse_timesOf [OF commit, of "day c'"] by auto
  next
    assume "c' = c"
    with p have "?x \<in> set (timesOf (scheduledTimesPerDay st1) (day c'))"
      "parse (time c') = Inr (st_start ?x, st_end ?x)"
      using scheduleCourse_timesOf [OF commit, of "day c"] by simp_all
    then show ?thesis by blast
  qed
qed

lemma noOverlap_commit:
  assumes cov: "covered parse st"
    and no: "noOverlap parse (finalSchedule st)"
    and p: "parse (time c) = Inr (s, e)"
    and t: "map_of (scheduledTimesPerDay st) (day c) = Some sts"
    and free: "\<not> hasTimeConflict sts s e"
    and commit: "scheduleCourse code c s e (day c) st = Inr st1"
  shows "noOverlap parse (finalSchedule st1)"
  unfolding noOverlap_def
proof (intro allI impI)
  fix k1 i1 k2 i2
  let ?old = "coursesOf (finalSchedule st)"
  let ?new = "coursesOf (finalSchedule st1)"
  assume i1: "i1 < length (?new k1)" and i2: "i2 < length (?new k2)"
    and ne: "(k1, i1) \<noteq> (k2, i2)"
    and d: "day (?new k1 ! i1) = day (?new k2 ! i2)"
  note new = scheduleCourse_coursesOf [OF commit]
  have old_or_new: "(i < length (?old k) \<and> ?new k ! i = ?old k ! i)
        \<or> (k = code \<and> i = length (?old code) \<and> ?new k ! i = c)"
    if "i < length (?new k)" for k i
    using that new [of k] by (auto simp: nth_append split: if_splits)
  have against: "\<not> (dateLt s (st_end x) \<and> dateGt e (st_start x))"
    if "x \<in> set sts" for x
    using free that by (auto simp: hasTimeConflict_iff)
  have old_vs_new: "\<exists>s' e'. parse (time (?old k ! i)) = Inr (s', e')
        \<and> \<not> (dateLt s e' \<and> dateGt e s') \<and> \<not> (dateLt s' e \<and> dateGt e' s)"
    if "i < length (?old k)" "day (?old k ! i) = day c" for k i
  proof -
    from that(1) have "?old k ! i \<in> set (?old k)" by simp
    with cov obtain x where x: "x \<in> set (timesOf (scheduledTimesPerDay st) (day (?old k ! i)))"
      "parse (time (?old k ! i)) = Inr (st_start x, st_end x)"
      unfolding covered_def by blast
    from x(1) that(2) t have "x \<in> set sts" by (simp add: timesOf_def)
    from against [OF this] x(2) show ?thesis by (auto simp: dateGt_dateLt)
  qed
  from old_or_new [OF i1] old_or_new [OF i2]
  show "\<exists>s1 e1 s2 e2. parse (time (?new k1 ! i1)) = Inr (s1, e1)
         \<and> parse (time (?new k2 ! i2)) = Inr (s2, e2)
         \<and> \<not> (dateLt s1 e2 \<and> dateGt e1 s2)"
  proof (elim disjE conjE)
    assume a: "i1 < length (?old k1)" "?new k1 ! i1 = ?old k1 ! i1"
      "i2 < length (?old k2)" "?new k2 ! i2 = ?old k2 ! i2"
    with no ne d show ?thesis unfolding noOverlap_def by simp
  next
    assume a: "i1 < length (?old k1)" "?new k1 ! i1 = ?old k1 ! i1"
      "k2 = code" "i2 = length (?old code)" "?new k2 ! i2 = c"
    with d have "day (?old k1 ! i1) = day c" by simp
    from old_vs_new [OF a(1) this] a p show ?thesis by auto
  next
    assume a: "k1 = code" "i1 = length (?old code)" "?new k1 ! i1 = c"
      "i2 < length (?old k2)" "?new k2 ! i2 = ?old k2 ! i2"
    with d have "day (?old k2 ! i2) = day c" by simp
    from old_vs_new [OF a(4) this] a p show ?thesis by auto
  next
    assume "k1 = code" "i1 = length (?old code)" "k2 = code" "i2 = length (?old code)"
    with ne show ?thesis by simp
  qed
qed

lemma search_sound:
  "covered parse st \<Longrightarrow> noOverlap parse (finalSchedule st)
     \<Longrightarrow> scheduleUnits parse u units st = Inr (ok, st')
     \<Longrightarrow> covered parse st' \<and> noOverlap parse (finalSchedule st')"
  "covered parse st \<Longrightarrow> noOverlap parse (finalSchedule st)
     \<Longrightarrow> scheduleActivities parse a cu units u st = Inr (ok, st')
     \<Longrightarrow> covered parse st' \<and> noOverlap parse (finalSchedule st')"
  "covered parse st \<Longrightarrow> noOverlap parse (finalSchedule st)
     \<Longrightarrow> tryCourses parse cs a cu units u st = Inr (ok, st')
     \<Longrightarrow> covered parse st' \<and> noOverlap parse (finalSchedule st')"
proof (induction parse u units st and parse a cu units u st and parse cs a cu units u st
       arbitrary: ok st' and ok st' and ok st'
       rule: scheduleUnits_scheduleActivities_tryCourses.induct)
  case (1 parse unitIndex units st)
  from "1.prems"(3) show ?case
  proof (cases rule: scheduleUnits_InrE)
    case finished
    with "1.prems" show ?thesis by simp
  next
    case enter
    from enter(1) have n: "\<not> length units \<le> unitIndex" by simp
    from "1.IH" [OF n refl refl refl covered_initialize [OF "1.prems"(1)]
                 noOverlap_initialize [OF "1.prems"(2)] enter(2)]
    show ?thesis .
  qed
next
  case (2 parse activityIndex currentUnit units unitIndex st)
  from "2.prems"(3) show ?case
  proof (cases rule: scheduleActivities_InrE)
    case next_unit
    from "2.IH"(1) [OF next_unit(1) "2.prems"(1,2) next_unit(2)] show ?thesis .
  next
    case candidates
    from candidates(1) have "\<not> length (u_activities currentUnit) \<le> activityIndex" by simp
    from "2.IH"(2) [OF this "2.prems"(1,2) candidates(2)] show ?thesis .
  qed
next
  case (3 parse activityIndex currentUnit units unitIndex st)
  then show ?case by simp
next
  case (4 parse course rest activityIndex currentUnit units unitIndex st)
  from "4.prems"(3) show ?case
  proof (cases rule: tryCourses_Cons_InrE)
    case (conflict s e sts)
    from conflict(3) have "\<not> \<not> hasTimeConflict sts s e" by simp
    from "4.IH"(3) [OF conflict(1) refl conflict(2) this "4.prems"(1,2) conflict(4)]
    show ?thesis .
  next
    case (commit s e sts st1)
    have "covered parse st1"
      using "4.prems"(1) commit(1,4) by (rule covered_commit)
    moreover have "noOverlap parse (finalSchedule st1)"
      using "4.prems"(1,2) commit(1,2,3,4) by (rule noOverlap_commit)
    ultimately show ?thesis
      using "4.IH"(1) [OF commit(1) refl commit(2,3,4) _ _ commit(5)] by blast
  next
    case (backtrack s e sts st1 st2 st3)
    have "restored (drop (unitIndex + 1) units) st1 st2"
      using backtrack(5) by (rule search_restores)
    with backtrack(4,6) have r: "restored (drop (unitIndex + 1) units) st st3"
      using restored_uncommit by blast
    have "covered parse st3" using r "4.prems"(1) by (rule covered_restored)
    moreover have "noOverlap parse (finalSchedule st3)"
      using r "4.prems"(2) by (rule noOverlap_restored)
    ultimately show ?thesis
      using "4.IH"(2) [OF backtrack(1) refl backtrack(2,3,4,5) refl refl backtrack(6) _ _
                       backtrack(7)]
      by blast
  qed
qed

lemma scheduleCourse_distinct:
  "scheduleCourse code c s e d st = Inr st1 \<Longrightarrow> distinct (map fst (finalSchedule st))
     \<Longrightarrow> distinct (map fst (finalSchedule st1))"
  by (erule scheduleCourse_Inr) (simp add: distinct_update)

lemma unscheduleCourse_distinct:
  "unscheduleCourse code d st = Inr st1 \<Longrightarrow> distinct (map fst (finalSchedule st))
     \<Longrightarrow> distinct (map fst (finalSchedule st1))"
  by (erule unscheduleCourse_Inr) (simp add: distinct_update)

lemma search_distinct:
  "distinct (map fst (finalSchedule st))
     \<Longrightarrow> scheduleUnits parse u units st = Inr (ok, st')
     \<Longrightarrow> distinct (map fst (finalSchedule st'))"
  "distinct (map fst (finalSchedule st))
     \<Longrightarrow> scheduleActivities parse a cu units u st = Inr (ok, st')
     \<Longrightarrow> distinct (map fst (finalSchedule st'))"
  "distinct (map fst (finalSchedule st))
     \<Longrightarrow> tryCourses parse cs a cu units u st = Inr (ok, st')
     \<Longrightarrow> distinct (map fst (finalSchedule st'))"
proof (induction parse u units st and parse a cu units u st and parse cs a cu units u st
       arbitrary: ok st' and ok st' and ok st'
       rule: scheduleUnits_scheduleActivities_tryCourses.induct)
  case (1 parse unitIndex units st)
  from "1.prems"(2) show ?case
  proof (cases rule: scheduleUnits_InrE)
    case finished
    with "1.prems" show ?thesis by simp
  next
    case enter
    from enter(1) have n: "\<not> length units \<le> unitIndex" by simp
    have "distinct (map fst (finalSchedule (initializeUnitSchedule (units ! unitIndex) st)))"
      using "1.prems"(1) by (simp add: initializeUnitSchedule_def distinct_update)
    from "1.IH" [OF n refl refl refl this enter(2)] show ?thesis .
  qed
next
  case (2 parse activityIndex currentUnit units unitIndex st)
  from "2.prems"(2) show ?case
  proof (cases rule: scheduleActivities_InrE)
    case next_unit
    from "2.IH"(1) [OF next_unit(1) "2.prems"(1) next_unit(2)] show ?thesis .
  next
    case candidates
    from candidates(1) have "\<not> length (u_activities currentUnit) \<le> activityIndex" by simp
    from "2.IH"(2) [OF this "2.prems"(1) candidates(2)] show ?thesis .
  qed
next
  case (3 parse activityIndex currentUnit units unitIndex st)
  then show ?case by simp
next
  case (4 parse course rest activityIndex currentUnit units unitIndex st)
  from "4.prems"(2) show ?case
  proof (cases rule: tryCourses_Cons_InrE)
    case (conflict s e sts)
    from conflict(3) have "\<not> \<not> hasTimeConflict sts s e" by simp
    from "4.IH"(3) [OF conflict(1) refl conflict(2) this "4.prems"(1) conflict(4)]
    show ?thesis .
  next
    case (commit s e sts st1)
    have "distinct (map fst (finalSchedule st1))"
      using commit(4) "4.prems"(1) by (rule scheduleCourse_distinct)
    from "4.IH"(1) [OF commit(1) refl commit(2,3,4) this commit(5)] show ?thesis .
  next
    case (backtrack s e sts st1 st2 st3)
    have d1: "distinct (map fst (finalSchedule st1))"
      using backtrack(4) "4.prems"(1) by (rule scheduleCourse_distinct)
    have "distinct (map fst (finalSchedule st2))"
      using "4.IH"(1) [OF backtrack(1) refl backtrack(2,3,4) d1 backtrack(5)] .
    with backtrack(6) have "distinct (map fst (finalSchedule st3))"
      by (rule unscheduleCourse_distinct)
    from "4.IH"(2) [OF backtrack(1) refl backtrack(2,3,4,5) refl refl backtrack(6) this
                     backtrack(7)]
    show ?thesis .
  qed
qed

lemma filterCourseList_SomeE:
  assumes "filterCourseList courseList start end' days classesPerDay backToBack = Inr (Some sched)"
  obtains units0 st where
    "buildUnits (objectEntries courseList) = Inr units0"
    "scheduleUnits parseCourseTimes 0 (sortUnits units0) initialState = Inr (True, st)"
    "sched = finalSchedule st"
  using assms
  by (auto simp: filterCourseList_def initialState_def Let_def
           split: sum.splits prod.splits if_splits)

lemma covered_initial: "covered parse initialState"
  by (simp add: covered_def initialState_def coursesOf_def)

lemma noOverlap_initial: "noOverlap parse (finalSchedule initialState)"
  by (simp add: noOverlap_def initialState_def coursesOf_def)

lemma filterCourseList_noOverlap:
  assumes "filterCourseList courseList start end' days classesPerDay backToBack = Inr (Some sched)"
  shows "noOverlap parseCourseTimes sched" "distinct (map fst sched)"
proof -
  from assms obtain units0 st where
    run: "scheduleUnits parseCourseTimes 0 (sortUnits units0) initialState = Inr (True, st)"
    and sched: "sched = finalSchedule st"
    by (rule filterCourseList_SomeE)
  from search_sound(1) [OF covered_initial noOverlap_initial run] sched
  show "noOverlap parseCourseTimes sched" by simp
  have "distinct (map fst (finalSchedule initialState))" by (simp add: initialState_def)
  from search_distinct(1) [OF this run] sched show "distinct (map fst sched)" by simp
qed

lemma coursesOf_nth:
  assumes "distinct (map fst fs)" "p < length fs"
  shows "coursesOf fs (fst (fs ! p)) = ud_courses (snd (fs ! p))"
proof -
  from assms(2) have "(fst (fs ! p), snd (fs ! p)) \<in> set fs" by simp
  with assms(1) have "map_of fs (fst (fs ! p)) = Some (snd (fs ! p))" by (rule map_of_is_SomeI)
  then show ?thesis by (simp add: coursesOf_def)
qed

lemma twoUnits_run: "filterCourseList twoUnits [] [] [] 0 False = Inr (Some twoUnitsSchedule)"
  by code_simp

text \<open>
  C1. In a schedule that filterCourseList returns, two different sessions (at different
  places of the returned mapping) with the same day tag have time texts that parse, and
  the parsed intervals do not conflict: not (s1 < e2 and e1 > s2).
\<close>

theorem returned_schedule_conflict_free:
  assumes "filterCourseList courseList start end' days classesPerDay backToBack = Inr (Some sched)"
    and "p1 < length sched" and "p2 < length sched"
    and "i1 < length (ud_courses (snd (sched ! p1)))"
    and "i2 < length (ud_courses (snd (sched ! p2)))"
    and "(p1, i1) \<noteq> (p2, i2)"
    and "day (ud_courses (snd (sched ! p1)) ! i1) = day (ud_courses (snd (sched ! p2)) ! i2)"
  shows "\<exists>s1 e1 s2 e2.
           parseCourseTimes (time (ud_courses (snd (sched ! p1)) ! i1)) = Inr (s1, e1)
         \<and> parseCourseTimes (time (ud_courses (snd (sched ! p2)) ! i2)) = Inr (s2, e2)
         \<and> \<not> (dateLt s1 e2 \<and> dateGt e1 s2)"
proof -
  from assms(1) have no: "noOverlap parseCourseTimes sched" and dist: "distinct (map fst sched)"
    by (rule filterCourseList_noOverlap)+
  let ?k1 = "fst (sched ! p1)" and ?k2 = "fst (sched ! p2)"
  have c1: "coursesOf sched ?k1 = ud_courses (snd (sched ! p1))"
    using dist assms(2) by (rule coursesOf_nth)
  have c2: "coursesOf sched ?k2 = ud_courses (snd (sched ! p2))"
    using dist assms(3) by (rule coursesOf_nth)
  have "(?k1, i1) \<noteq> (?k2, i2)"
  proof
    assume eq: "(?k1, i1) = (?k2, i2)"
    then have "fst (sched ! p1) = fst (sched ! p2)" by simp
    with dist assms(2,3) nth_eq_iff_index_eq [of "map fst sched" p1 p2]
    have "p1 = p2" by simp
    with eq assms(6) show False by simp
  qed
  with no assms(4,5,7) c1 c2 show ?thesis unfolding noOverlap_def by metis
qed

text \<open>
  The theorem at the schedule found for \<open>twoUnits\<close>: its two sessions are both on
  Monday, 10 to 11 and 9 to 10.
\<close>

theorem returned_schedule_conflict_free_witness:
  "\<exists>s1 e1 s2 e2.
     parseCourseTimes ''10:00am - 11:00am'' = Inr (s1, e1)
   \<and> parseCourseTimes ''9:00am - 10:00am'' = Inr (s2, e2)
   \<and> \<not> (dateLt s1 e2 \<and> dateGt e1 s2)"
proof -
  have a: "(0::nat) < length twoUnitsSchedule" and b: "(1::nat) < length twoUnitsSchedule"
    by (simp_all add: twoUnitsSchedule_def)
  have c: "(0::nat) < length (ud_courses (snd (twoUnitsSchedule ! 0)))"
    and d: "(0::nat) < length (ud_courses (snd (twoUnitsSchedule ! 1)))"
    by (simp_all add: twoUnitsSchedule_def)
  have e: "((0::nat), (0::nat)) \<noteq> (1, 0)" by simp
  have f: "day (ud_courses (snd (twoUnitsSchedule ! 0)) ! 0)
           = day (ud_courses (snd (twoUnitsSchedule ! 1)) ! 0)"
    by (simp add: twoUnitsSchedule_def session_def)
  from returned_schedule_conflict_free [OF twoUnits_run a b c d e f]
  show ?thesis by (simp add: twoUnitsSchedule_def session_def)
qed

subsection \<open>The activities of a unit\<close>

lemma groupCourses_map_of:
  assumes "groupCourses g0 courses = Inr g"
  shows "map_of g tag =
           (if map_of g0 tag = None \<and> filter (\<lambda>c. activity c = tag) courses = [] then None
            else Some ((case map_of g0 tag of None \<Rightarrow> [] | Some cs \<Rightarrow> cs)
                       @ filter (\<lambda>c. activity c = tag) courses))"
  using assms
proof (induction courses arbitrary: g0)
  case Nil
  then show ?case by (auto split: option.splits)
next
  case (Cons c rest)
  show ?case
  proof (cases "map_of g0 (activity c)")
    case None
    with Cons.prems have r: "groupCourses (AList.update (activity c) [c] g0) rest = Inr g"
      by (simp split: if_splits)
    from Cons.IH [OF r] None show ?thesis
      by (auto simp: update_conv' split: option.splits)
  next
    case (Some grp)
    with Cons.prems have r: "groupCourses (AList.update (activity c) (grp @ [c]) g0) rest = Inr g"
      by simp
    from Cons.IH [OF r] Some show ?thesis
      by (auto simp: update_conv' split: option.splits)
  qed
qed

lemma groupCourses_distinct:
  assumes "groupCourses g0 courses = Inr g" "distinct (map fst g0)"
  shows "distinct (map fst g)"
  using assms
proof (induction courses arbitrary: g0)
  case Nil
  then show ?case by simp
next
  case (Cons c rest)
  show ?case
  proof (cases "map_of g0 (activity c)")
    case None
    with Cons.prems have r: "groupCourses (AList.update (activity c) [c] g0) rest = Inr g"
      by (simp split: if_splits)
    from Cons.IH [OF r] Cons.prems(2) show ?thesis by (simp add: distinct_update)
  next
    case (Some grp)
    with Cons.prems have r: "groupCourses (AList.update (activity c) (grp @ [c]) g0) rest = Inr g"
      by simp
    from Cons.IH [OF r] Cons.prems(2) show ?thesis by (simp add: distinct_update)
  qed
qed

lemma set_objectEntries [simp]: "set (objectEntries ob) = set ob"
  by (auto simp: objectEntries_def)

lemma mset_objectEntries [simp]: "mset (objectEntries ob) = mset ob"
  by (simp add: objectEntries_def)

lemma distinct_objectEntries:
  "distinct (map fst (objectEntries ob)) = distinct (map fst ob)"
proof -
  have "mset (map fst (objectEntries ob)) = mset (map fst ob)" by simp
  then show ?thesis by (rule mset_eq_imp_distinct_iff)
qed

lemma buildUnit_grouped:
  assumes "buildUnit entry = Inr unit"
  shows "u_unitCode unit = fst entry" "u_unitName unit = ud_unitName (snd entry)"
    "grouped (ud_courses (snd entry)) (u_activities unit)"
proof -
  from assms obtain g where g: "groupCourses [] (ud_courses (snd entry)) = Inr g"
    and unit: "unit = \<lparr>u_unitCode = fst entry, u_unitName = ud_unitName (snd entry),
               u_activities = map (\<lambda>g. \<lparr>activityType = fst g, ag_courses = snd g\<rparr>)
                   (objectEntries g)\<rparr>"
    by (auto simp: buildUnit_def split: sum.splits)
  from unit show "u_unitCode unit = fst entry" "u_unitName unit = ud_unitName (snd entry)"
    by simp_all
  let ?courses = "ud_courses (snd entry)"
  have dg: "distinct (map fst g)" using g by (rule groupCourses_distinct) simp
  have look: "map_of g tag =
      (if filter (\<lambda>c. activity c = tag) ?courses = [] then None
       else Some (filter (\<lambda>c. activity c = tag) ?courses))" for tag
    using groupCourses_map_of [OF g, of tag] by simp
  have tags: "map activityType (u_activities unit) = map fst (objectEntries g)"
    by (simp add: unit comp_def)
  have d: "distinct (map activityType (u_activities unit))"
    using dg by (simp add: tags distinct_objectEntries)
  have "tag \<in> fst ` set g \<longleftrightarrow> tag \<in> activity ` set ?courses" for tag
  proof -
    have "tag \<in> fst ` set g \<longleftrightarrow> map_of g tag \<noteq> None"
      by (simp add: map_of_eq_None_iff)
    also have "\<dots> \<longleftrightarrow> filter (\<lambda>c. activity c = tag) ?courses \<noteq> []"
      by (simp add: look)
    also have "\<dots> \<longleftrightarrow> tag \<in> activity ` set ?courses"
      by (auto simp: filter_empty_conv)
    finally show ?thesis .
  qed
  then have s: "set (map activityType (u_activities unit)) = set (map activity ?courses)"
    by (auto simp: tags)
  have m: "c \<in> set ?courses \<and> activity c = activityType a"
    if "a \<in> set (u_activities unit)" "c \<in> set (ag_courses a)" for a c
  proof -
    from that(1) unit obtain kv where kv: "kv \<in> set g" "a = \<lparr>activityType = fst kv, ag_courses = snd kv\<rparr>"
      by auto
    from kv(1) dg have "map_of g (fst kv) = Some (snd kv)" by simp
    with look [of "fst kv"] have "snd kv = filter (\<lambda>c. activity c = fst kv) ?courses"
      by (auto split: if_splits)
    with that(2) kv(2) show ?thesis by auto
  qed
  from d s m show "grouped ?courses (u_activities unit)"
    unfolding grouped_def by blast
qed

lemma buildUnits_all:
  assumes "buildUnits entries = Inr units"
  shows "map u_unitCode units = map fst entries"
    and "list_all2 (\<lambda>entry unit. u_unitName unit = ud_unitName (snd entry)
            \<and> u_unitCode unit = fst entry
            \<and> grouped (ud_courses (snd entry)) (u_activities unit)) entries units"
  using assms
proof (induction entries arbitrary: units)
  case Nil
  { case 1 then show ?case by simp }
  { case 2 then show ?case by simp }
next
  case (Cons entry rest)
  { case 1
    then obtain unit units' where u: "buildUnit entry = Inr unit"
      and r: "buildUnits rest = Inr units'" and us: "units = unit # units'"
      by (auto split: sum.splits)
    from Cons.IH(1) [OF r] buildUnit_grouped(1) [OF u] us show ?case by simp }
  { case 2
    then obtain unit units' where u: "buildUnit entry = Inr unit"
      and r: "buildUnits rest = Inr units'" and us: "units = unit # units'"
      by (auto split: sum.splits)
    from Cons.IH(2) [OF r] buildUnit_grouped [OF u] us show ?case by simp }
qed

subsection \<open>What a successful call leaves behind\<close>

lemma search_complete:
  "distinct (map u_unitCode (drop u units))
     \<Longrightarrow> scheduleUnits parse u units st = Inr (True, st')
     \<Longrightarrow> (\<forall>unit \<in> set (drop u units). unitDone unit (finalSchedule st'))
         \<and> (\<forall>k. k \<notin> u_unitCode ` set (drop u units)
                \<longrightarrow> map_of (finalSchedule st') k = map_of (finalSchedule st) k)"
  "distinct (map u_unitCode (drop (u + 1) units))
     \<Longrightarrow> u_unitCode cu \<notin> u_unitCode ` set (drop (u + 1) units)
     \<Longrightarrow> map_of (finalSchedule st) (u_unitCode cu) = Some entry
     \<Longrightarrow> scheduleActivities parse a cu units u st = Inr (True, st')
     \<Longrightarrow> (\<forall>unit \<in> set (drop (u + 1) units). unitDone unit (finalSchedule st'))
         \<and> (\<exists>cs. map_of (finalSchedule st') (u_unitCode cu)
                    = Some (entry\<lparr>ud_courses := ud_courses entry @ cs\<rparr>)
                \<and> list_all2 (\<lambda>c g. c \<in> set (ag_courses g)) cs (drop a (u_activities cu)))
         \<and> (\<forall>k. k \<notin> u_unitCode ` set (drop (u + 1) units) \<longrightarrow> k \<noteq> u_unitCode cu
                \<longrightarrow> map_of (finalSchedule st') k = map_of (finalSchedule st) k)"
  "distinct (map u_unitCode (drop (u + 1) units))
     \<Longrightarrow> u_unitCode cu \<notin> u_unitCode ` set (drop (u + 1) units)
     \<Longrightarrow> map_of (finalSchedule st) (u_unitCode cu) = Some entry
     \<Longrightarrow> tryCourses parse cands a cu units u st = Inr (True, st')
     \<Longrightarrow> (\<forall>unit \<in> set (drop (u + 1) units). unitDone unit (finalSchedule st'))
         \<and> (\<exists>c cs. c \<in> set cands
                \<and> map_of (finalSchedule st') (u_unitCode cu)
                    = Some (entry\<lparr>ud_courses := ud_courses entry @ c # cs\<rparr>)
                \<and> list_all2 (\<lambda>c g. c \<in> set (ag_courses g)) cs
                     (drop (a + 1) (u_activities cu)))
         \<and> (\<forall>k. k \<notin> u_unitCode ` set (drop (u + 1) units) \<longrightarrow> k \<noteq> u_unitCode cu
                \<longrightarrow> map_of (finalSchedule st') k = map_of (finalSchedule st) k)"
proof (induction parse u units st and parse a cu units u st and parse cands a cu units u st
       arbitrary: st' and st' entry and st' entry
       rule: scheduleUnits_scheduleActivities_tryCourses.induct)
  case (1 parse unitIndex units st)
  from "1.prems"(2) show ?case
  proof (cases rule: scheduleUnits_InrE)
    case finished
    then show ?thesis by simp
  next
    case enter
    let ?cu = "units ! unitIndex"
    let ?sorted = "?cu\<lparr>u_activities := sortActivitiesByCourseOptions (u_activities ?cu)\<rparr>"
    let ?st1 = "initializeUnitSchedule ?cu st"
    let ?entry = "\<lparr>ud_unitName = u_unitName ?cu, ud_courses = []\<rparr>"
    from enter(1) have n: "\<not> length units \<le> unitIndex" by simp
    from enter(1) have dr: "drop unitIndex units = ?cu # drop (unitIndex + 1) units"
      by (simp add: Cons_nth_drop_Suc)
    with "1.prems"(1) have d': "distinct (map u_unitCode (drop (unitIndex + 1) units))"
      and notin: "u_unitCode ?sorted \<notin> u_unitCode ` set (drop (unitIndex + 1) units)"
      by auto
    have e: "map_of (finalSchedule ?st1) (u_unitCode ?sorted) = Some ?entry"
      by (simp add: initializeUnitSchedule_def update_conv')
    from "1.IH" [OF n refl refl refl d' notin e enter(2)]
    have later: "\<forall>unit \<in> set (drop (unitIndex + 1) units). unitDone unit (finalSchedule st')"
      and cur: "\<exists>cs. map_of (finalSchedule st') (u_unitCode ?sorted)
                    = Some (?entry\<lparr>ud_courses := ud_courses ?entry @ cs\<rparr>)
                \<and> list_all2 (\<lambda>c g. c \<in> set (ag_courses g)) cs (drop 0 (u_activities ?sorted))"
      and frame: "\<forall>k. k \<notin> u_unitCode ` set (drop (unitIndex + 1) units)
                \<longrightarrow> k \<noteq> u_unitCode ?sorted
                \<longrightarrow> map_of (finalSchedule st') k = map_of (finalSchedule ?st1) k"
      by blast+
    from cur have "unitDone ?cu (finalSchedule st')" by (simp add: unitDone_def)
    with later dr have a: "\<forall>unit \<in> set (drop unitIndex units). unitDone unit (finalSchedule st')"
      by simp
    have b: "map_of (finalSchedule st') k = map_of (finalSchedule st) k"
      if "k \<notin> u_unitCode ` set (drop unitIndex units)" for k
    proof -
      from that dr have "k \<noteq> u_unitCode ?cu" "k \<notin> u_unitCode ` set (drop (unitIndex + 1) units)"
        by auto
      with frame have "map_of (finalSchedule st') k = map_of (finalSchedule ?st1) k" by simp
      with \<open>k \<noteq> u_unitCode ?cu\<close> show ?thesis
        by (simp add: initializeUnitSchedule_def update_conv')
    qed
    from a b show ?thesis by blast
  qed
next
  case (2 parse activityIndex currentUnit units unitIndex st)
  from "2.prems"(4) show ?case
  proof (cases rule: scheduleActivities_InrE)
    case next_unit
    from "2.IH"(1) [OF next_unit(1) "2.prems"(1) next_unit(2)]
    have later: "\<forall>unit \<in> set (drop (unitIndex + 1) units). unitDone unit (finalSchedule st')"
      and frame: "\<forall>k. k \<notin> u_unitCode ` set (drop (unitIndex + 1) units)
                \<longrightarrow> map_of (finalSchedule st') k = map_of (finalSchedule st) k"
      by blast+
    from frame "2.prems"(2,3)
    have "map_of (finalSchedule st') (u_unitCode currentUnit)
            = Some (entry\<lparr>ud_courses := ud_courses entry @ []\<rparr>)"
      by simp
    moreover from next_unit(1)
    have "list_all2 (\<lambda>c g. c \<in> set (ag_courses g)) [] (drop activityIndex (u_activities currentUnit))"
      by simp
    ultimately show ?thesis using later frame by blast
  next
    case candidates
    from candidates(1) have n: "\<not> length (u_activities currentUnit) \<le> activityIndex" by simp
    from "2.IH"(2) [OF n "2.prems"(1,2,3) candidates(2)]
    obtain c cs where
      later: "\<forall>unit \<in> set (drop (unitIndex + 1) units). unitDone unit (finalSchedule st')"
      and c: "c \<in> set (ag_courses (u_activities currentUnit ! activityIndex))"
      and cur: "map_of (finalSchedule st') (u_unitCode currentUnit)
                    = Some (entry\<lparr>ud_courses := ud_courses entry @ c # cs\<rparr>)"
      and cs: "list_all2 (\<lambda>c g. c \<in> set (ag_courses g)) cs
                     (drop (activityIndex + 1) (u_activities currentUnit))"
      and frame: "\<forall>k. k \<notin> u_unitCode ` set (drop (unitIndex + 1) units)
                \<longrightarrow> k \<noteq> u_unitCode currentUnit
                \<longrightarrow> map_of (finalSchedule st') k = map_of (finalSchedule st) k"
      by blast
    from candidates(1) have "drop activityIndex (u_activities currentUnit)
        = u_activities currentUnit ! activityIndex
          # drop (activityIndex + 1) (u_activities currentUnit)"
      by (simp add: Cons_nth_drop_Suc)
    with c cs have "list_all2 (\<lambda>c g. c \<in> set (ag_courses g)) (c # cs)
                     (drop activityIndex (u_activities currentUnit))"
      by simp
    with later cur frame show ?thesis by blast
  qed
next
  case (3 parse activityIndex currentUnit units unitIndex st)
  then show ?case by simp
next
  case (4 parse course rest activityIndex currentUnit units unitIndex st)
  from "4.prems"(4) show ?case
  proof (cases rule: tryCourses_Cons_InrE)
    case (conflict s e sts)
    from conflict(3) have "\<not> \<not> hasTimeConflict sts s e" by simp
    from "4.IH"(3) [OF conflict(1) refl conflict(2) this "4.prems"(1,2,3) conflict(4)]
    show ?thesis by auto
  next
    case (commit s e sts st1)
    from commit(4) "4.prems"(3)
    have e1: "map_of (finalSchedule st1) (u_unitCode currentUnit)
                = Some (entry\<lparr>ud_courses := ud_courses entry @ [course]\<rparr>)"
      and f1: "\<And>k. k \<noteq> u_unitCode currentUnit
                \<Longrightarrow> map_of (finalSchedule st1) k = map_of (finalSchedule st) k"
      by (auto elim!: scheduleCourse_Inr simp: update_conv')
    from "4.IH"(1) [OF commit(1) refl commit(2,3,4) "4.prems"(1,2) e1 commit(5)]
    obtain cs where
      later: "\<forall>unit \<in> set (drop (unitIndex + 1) units). unitDone unit (finalSchedule st')"
      and cur: "map_of (finalSchedule st') (u_unitCode currentUnit)
                    = Some (entry\<lparr>ud_courses := ud_courses entry @ course # cs\<rparr>)"
      and cs: "list_all2 (\<lambda>c g. c \<in> set (ag_courses g)) cs
                     (drop (activityIndex + 1) (u_activities currentUnit))"
      and frame: "\<forall>k. k \<notin> u_unitCode ` set (drop (unitIndex + 1) units)
                \<longrightarrow> k \<noteq> u_unitCode currentUnit
                \<longrightarrow> map_of (finalSchedule st') k = map_of (finalSchedule st1) k"
      by auto
    from frame f1 have "\<forall>k. k \<notin> u_unitCode ` set (drop (unitIndex + 1) units)
                \<longrightarrow> k \<noteq> u_unitCode currentUnit
                \<longrightarrow> map_of (finalSchedule st') k = map_of (finalSchedule st) k"
      by simp
    with later cur cs show ?thesis by auto
  next
    case (backtrack s e sts st1 st2 st3)
    have "restored (drop (unitIndex + 1) units) st1 st2"
      using backtrack(5) by (rule search_restores)
    with backtrack(4,6) have r: "restored (drop (unitIndex + 1) units) st st3"
      using restored_uncommit by blast
    then have same: "map_of (finalSchedule st3) k = map_of (finalSchedule st) k"
      if "k \<notin> u_unitCode ` set (drop (unitIndex + 1) units)" for k
      using that unfolding restored_def by blast
    from same [OF "4.prems"(2)] "4.prems"(3)
    have e3: "map_of (finalSchedule st3) (u_unitCode currentUnit) = Some entry" by simp
    from "4.IH"(2) [OF backtrack(1) refl backtrack(2,3,4,5) refl refl backtrack(6)
                     "4.prems"(1,2) e3 backtrack(7)]
    obtain c cs where
      later: "\<forall>unit \<in> set (drop (unitIndex + 1) units). unitDone unit (finalSchedule st')"
      and c: "c \<in> set rest"
      and cur: "map_of (finalSchedule st') (u_unitCode currentUnit)
                    = Some (entry\<lparr>ud_courses := ud_courses entry @ c # cs\<rparr>)"
      and cs: "list_all2 (\<lambda>c g. c \<in> set (ag_courses g)) cs
                     (drop (activityIndex + 1) (u_activities currentUnit))"
      and frame: "\<forall>k. k \<notin> u_unitCode ` set (drop (unitIndex + 1) units)
                \<longrightarrow> k \<noteq> u_unitCode currentUnit
                \<longrightarrow> map_of (finalSchedule st') k = map_of (finalSchedule st3) k"
      by blast
    from frame same have "\<forall>k. k \<notin> u_unitCode ` set (drop (unitIndex + 1) units)
                \<longrightarrow> k \<noteq> u_unitCode currentUnit
                \<longrightarrow> map_of (finalSchedule st') k = map_of (finalSchedule st) k"
      by simp
    with later c cur cs show ?thesis by auto
  qed
qed

lemma picks_of_grouped:
  assumes g: "grouped courses acts"
    and p: "list_all2 (\<lambda>c g. c \<in> set (ag_courses g)) cs (sortActivitiesByCourseOptions acts)"
  shows "set cs \<subseteq> set courses" "distinct (map activity cs)"
    "set (map activity cs) = set (map activity courses)"
    "length cs = card (set (map activity courses))"
proof -
  let ?sa = "sortActivitiesByCourseOptions acts"
  have len: "length cs = length ?sa" using p by (rule list_all2_lengthD)
  have each: "cs ! i \<in> set courses \<and> activity (cs ! i) = activityType (?sa ! i)"
    if "i < length cs" for i
  proof -
    from p that have "cs ! i \<in> set (ag_courses (?sa ! i))" by (rule list_all2_nthD)
    moreover from that len have "?sa ! i \<in> set acts"
      using nth_mem [of i ?sa] by simp
    ultimately show ?thesis using g unfolding grouped_def by blast
  qed
  show "set cs \<subseteq> set courses"
    using each by (auto simp: in_set_conv_nth)
  have tags: "map activity cs = map activityType ?sa"
    using len each by (intro nth_equalityI) simp_all
  have "mset (map activityType ?sa) = mset (map activityType acts)" by simp
  then have d: "distinct (map activityType ?sa) = distinct (map activityType acts)"
    by (rule mset_eq_imp_distinct_iff)
  with g show dist: "distinct (map activity cs)" by (simp add: tags grouped_def)
  from g show s: "set (map activity cs) = set (map activity courses)"
    by (simp add: tags grouped_def)
  have "length cs = length (map activity cs)" by simp
  also have "\<dots> = card (set (map activity cs))" using distinct_card [OF dist] by simp
  finally show "length cs = card (set (map activity courses))" using s by simp
qed

lemma filterCourseList_units:
  assumes "distinct (map fst courseList)"
    and "buildUnits (objectEntries courseList) = Inr units0"
  shows "distinct (map u_unitCode (sortUnits units0))"
    and "(code, unitData) \<in> set courseList \<Longrightarrow>
           \<exists>unit \<in> set (sortUnits units0). u_unitCode unit = code
              \<and> u_unitName unit = ud_unitName unitData
              \<and> grouped (ud_courses unitData) (u_activities unit)"
proof -
  have "map u_unitCode units0 = map fst (objectEntries courseList)"
    using assms(2) by (rule buildUnits_all)
  with assms(1) have "distinct (map u_unitCode units0)"
    by (simp add: distinct_objectEntries)
  moreover have "mset (map u_unitCode (sortUnits units0)) = mset (map u_unitCode units0)"
    by simp
  ultimately show "distinct (map u_unitCode (sortUnits units0))"
    using mset_eq_imp_distinct_iff by blast
next
  assume "(code, unitData) \<in> set courseList"
  then have "(code, unitData) \<in> set (objectEntries courseList)" by simp
  then obtain i where i: "i < length (objectEntries courseList)"
    "objectEntries courseList ! i = (code, unitData)"
    by (metis in_set_conv_nth)
  have all: "list_all2 (\<lambda>entry unit. u_unitName unit = ud_unitName (snd entry)
            \<and> u_unitCode unit = fst entry
            \<and> grouped (ud_courses (snd entry)) (u_activities unit))
          (objectEntries courseList) units0"
    using assms(2) by (rule buildUnits_all)
  from list_all2_nthD [OF all i(1)] i(2)
  have "u_unitName (units0 ! i) = ud_unitName unitData \<and> u_unitCode (units0 ! i) = code
        \<and> grouped (ud_courses unitData) (u_activities (units0 ! i))"
    by simp
  moreover from all i(1) have "units0 ! i \<in> set units0"
    by (simp add: list_all2_lengthD)
  ultimately show "\<exists>unit \<in> set (sortUnits units0). u_unitCode unit = code
              \<and> u_unitName unit = ud_unitName unitData
              \<and> grouped (ud_courses unitData) (u_activities unit)"
    by auto
qed

lemma filterCourseList_unitDone:
  assumes "distinct (map fst courseList)"
    and "filterCourseList courseList start end' days classesPerDay backToBack = Inr (Some sched)"
    and "(code, unitData) \<in> set courseList"
  shows "\<exists>cs. map_of sched code = Some \<lparr>ud_unitName = ud_unitName unitData, ud_courses = cs\<rparr>
          \<and> set cs \<subseteq> set (ud_courses unitData)
          \<and> distinct (map activity cs)
          \<and> set (map activity cs) = set (map activity (ud_courses unitData))
          \<and> length cs = card (set (map activity (ud_courses unitData)))"
proof -
  from assms(2) obtain units0 st where
    b: "buildUnits (objectEntries courseList) = Inr units0"
    and run: "scheduleUnits parseCourseTimes 0 (sortUnits units0) initialState = Inr (True, st)"
    and sched: "sched = finalSchedule st"
    by (rule filterCourseList_SomeE)
  have d: "distinct (map u_unitCode (drop 0 (sortUnits units0)))"
    using filterCourseList_units(1) [OF assms(1) b] by simp
  from search_complete(1) [OF d run] sched
  have alldone: "\<forall>unit \<in> set (sortUnits units0). unitDone unit sched" by simp
  from filterCourseList_units(2) [OF assms(1) b assms(3)]
  obtain unit where unit: "unit \<in> set (sortUnits units0)" "u_unitCode unit = code"
    "u_unitName unit = ud_unitName unitData"
    "grouped (ud_courses unitData) (u_activities unit)"
    by blast
  from alldone unit(1) have "unitDone unit sched" by blast
  then obtain cs where
    cs: "map_of sched code = Some \<lparr>ud_unitName = ud_unitName unitData, ud_courses = cs\<rparr>"
      "list_all2 (\<lambda>c g. c \<in> set (ag_courses g)) cs
         (sortActivitiesByCourseOptions (u_activities unit))"
    using unit(2,3) unfolding unitDone_def by auto
  from cs(1) picks_of_grouped [OF unit(4) cs(2)] show ?thesis by blast
qed

subsection \<open>The properties of the returned object\<close>

lemma map_of_ownProperties:
  "map_of (ownProperties slots) k = (if k = ''__proto__'' then None else map_of slots k)"
  unfolding ownProperties_def by (induction slots) auto

lemma ownProperties_update_prototype:
  "ownProperties (AList.update ''__proto__'' v slots) = ownProperties slots"
  unfolding ownProperties_def by (induction slots) auto

lemma ownProperties_update:
  "k \<noteq> ''__proto__''
     \<Longrightarrow> ownProperties (AList.update k v slots) = AList.update k v (ownProperties slots)"
  unfolding ownProperties_def by (induction slots) auto

lemma initialize_own_properties:
  "ownProperties (finalSchedule (initializeUnitSchedule currentUnit st))
     = (if u_unitCode currentUnit = ''__proto__'' then ownProperties (finalSchedule st)
        else AList.update (u_unitCode currentUnit)
               \<lparr>ud_unitName = u_unitName currentUnit, ud_courses = []\<rparr>
               (ownProperties (finalSchedule st)))"
  by (simp add: initializeUnitSchedule_def ownProperties_update_prototype ownProperties_update)

text \<open>
  Every unit code of the course list other than \<open>__proto__\<close> has an entry in the object
  that filterCourseList returns, under the unit's name. The sessions of the entry are
  sessions of that unit with pairwise different activity tags, and their tags are all the
  tags of the unit's sessions: one session out of each activity group, as many as the unit
  has activities.
\<close>

lemma assigned_own_property:
  assumes "distinct (map fst courseList)"
    and "filterCourseList courseList start end' days classesPerDay backToBack = Inr (Some sched)"
    and "(code, unitData) \<in> set courseList"
    and "code \<noteq> ''__proto__''"
  shows "\<exists>entry. map_of (ownProperties sched) code = Some entry
          \<and> ud_unitName entry = ud_unitName unitData
          \<and> set (ud_courses entry) \<subseteq> set (ud_courses unitData)
          \<and> distinct (map activity (ud_courses entry))
          \<and> set (map activity (ud_courses entry)) = set (map activity (ud_courses unitData))
          \<and> length (ud_courses entry) = card (set (map activity (ud_courses unitData)))"
proof -
  from filterCourseList_unitDone [OF assms(1,2,3)]
  obtain cs where
    "map_of sched code = Some \<lparr>ud_unitName = ud_unitName unitData, ud_courses = cs\<rparr>"
    "set cs \<subseteq> set (ud_courses unitData)" "distinct (map activity cs)"
    "set (map activity cs) = set (map activity (ud_courses unitData))"
    "length cs = card (set (map activity (ud_courses unitData)))"
    by blast
  with assms(4) show ?thesis by (simp add: map_of_ownProperties)
qed

text \<open>
  C2. The course list \<open>prototypeUnit\<close> has the single unit code \<open>__proto__\<close>, with one
  lecture. filterCourseList returns a schedule for it, and the returned object has no
  property at all: the entry of the unit has become the prototype of the object. The
  returned mapping has no entry for the unit code of the input.
\<close>

theorem prototype_unit_missing:
  "distinct (map fst prototypeUnit)
   \<and> ''__proto__'' \<in> set (map fst prototypeUnit)
   \<and> filterCourseList prototypeUnit [] [] [] 0 False = Inr (Some prototypeUnitSchedule)
   \<and> ownProperties prototypeUnitSchedule = []
   \<and> map_of (ownProperties prototypeUnitSchedule) ''__proto__'' = None"
proof -
  have "filterCourseList prototypeUnit [] [] [] 0 False = Inr (Some prototypeUnitSchedule)"
    by code_simp
  then show ?thesis
    by (simp add: prototypeUnit_def prototypeUnitSchedule_def ownProperties_def)
qed

subsection \<open>Runs without an exception\<close>

lemma groupCourses_no_error:
  assumes "\<forall>c \<in> set courses. activity c \<notin> set objectPrototypeKeys"
  shows "\<exists>g. groupCourses g0 courses = Inr g"
  using assms
proof (induction courses arbitrary: g0)
  case Nil
  then show ?case by simp
next
  case (Cons c rest)
  then show ?case by (cases "map_of g0 (activity c)") simp_all
qed

lemma buildUnits_no_error:
  assumes "\<forall>entry \<in> set entries. \<forall>c \<in> set (ud_courses (snd entry)).
             activity c \<notin> set objectPrototypeKeys"
  shows "\<exists>units. buildUnits entries = Inr units"
  using assms
proof (induction entries)
  case Nil
  then show ?case by simp
next
  case (Cons entry rest)
  then obtain units where r: "buildUnits rest = Inr units" by auto
  from Cons.prems obtain g where "groupCourses [] (ud_courses (snd entry)) = Inr g"
    using groupCourses_no_error [of "ud_courses (snd entry)" "[]"] by auto
  then obtain unit where "buildUnit entry = Inr unit" by (simp add: buildUnit_def)
  with r show ?case by simp
qed

lemma tryable_keys:
  "map fst (scheduledTimesPerDay st') = map fst (scheduledTimesPerDay st)
     \<Longrightarrow> tryable parse st' = tryable parse st"
  by (simp add: tryable_def fun_eq_iff)

lemma scheduleCourse_no_error:
  assumes "map_of (finalSchedule st) code \<noteq> None" "map_of (scheduledTimesPerDay st) d \<noteq> None"
  shows "\<exists>st1. scheduleCourse code c s e d st = Inr st1"
  using assms by (auto simp: scheduleCourse_def)

lemma unscheduleCourse_no_error:
  assumes "map_of (finalSchedule st) code \<noteq> None" "map_of (scheduledTimesPerDay st) d \<noteq> None"
  shows "\<exists>st1. unscheduleCourse code d st = Inr st1"
  using assms by (auto simp: unscheduleCourse_def)

lemma restored_entry:
  assumes "restored later st st'" "map_of (finalSchedule st) code \<noteq> None"
  shows "map_of (finalSchedule st') code \<noteq> None"
proof -
  from assms(1) have "map_of (finalSchedule st') code = map_of (finalSchedule st) code
     \<or> (\<exists>unit \<in> set later. code = u_unitCode unit
          \<and> map_of (finalSchedule st') code
               = Some \<lparr>ud_unitName = u_unitName unit, ud_courses = []\<rparr>)"
    by (simp add: restored_def)
  with assms(2) show ?thesis by auto
qed

lemma search_no_error:
  "\<forall>unit \<in> set units. \<forall>g \<in> set (u_activities unit). \<forall>c \<in> set (ag_courses g). tryable parse st c
     \<Longrightarrow> \<exists>r. scheduleUnits parse u units st = Inr r"
  "\<forall>unit \<in> set units. \<forall>g \<in> set (u_activities unit). \<forall>c \<in> set (ag_courses g). tryable parse st c
     \<Longrightarrow> \<forall>g \<in> set (u_activities cu). \<forall>c \<in> set (ag_courses g). tryable parse st c
     \<Longrightarrow> map_of (finalSchedule st) (u_unitCode cu) \<noteq> None
     \<Longrightarrow> \<exists>r. scheduleActivities parse a cu units u st = Inr r"
  "\<forall>unit \<in> set units. \<forall>g \<in> set (u_activities unit). \<forall>c \<in> set (ag_courses g). tryable parse st c
     \<Longrightarrow> \<forall>g \<in> set (u_activities cu). \<forall>c \<in> set (ag_courses g). tryable parse st c
     \<Longrightarrow> map_of (finalSchedule st) (u_unitCode cu) \<noteq> None
     \<Longrightarrow> \<forall>c \<in> set cands. tryable parse st c
     \<Longrightarrow> \<exists>r. tryCourses parse cands a cu units u st = Inr r"
proof (induction parse u units st and parse a cu units u st and parse cands a cu units u st
       rule: scheduleUnits_scheduleActivities_tryCourses.induct)
  case (1 parse unitIndex units st)
  show ?case
  proof (cases "length units \<le> unitIndex")
    case True
    then have "scheduleUnits parse unitIndex units st = Inr (True, st)"
      by (subst scheduleUnits.simps) simp
    then show ?thesis by blast
  next
    case False
    let ?cu = "units ! unitIndex"
    let ?sorted = "?cu\<lparr>u_activities := sortActivitiesByCourseOptions (u_activities ?cu)\<rparr>"
    let ?st1 = "initializeUnitSchedule ?cu st"
    have k: "tryable parse ?st1 = tryable parse st"
      by (rule tryable_keys) (simp add: initializeUnitSchedule_def)
    from False have "?cu \<in> set units" by simp
    with "1.prems" have cu: "\<forall>g \<in> set (u_activities ?sorted). \<forall>c \<in> set (ag_courses g).
        tryable parse ?st1 c"
      by (simp add: k)
    have e: "map_of (finalSchedule ?st1) (u_unitCode ?sorted) \<noteq> None"
      by (simp add: initializeUnitSchedule_def update_conv')
    from "1.prems" have all: "\<forall>unit \<in> set units. \<forall>g \<in> set (u_activities unit).
        \<forall>c \<in> set (ag_courses g). tryable parse ?st1 c"
      by (simp add: k)
    from "1.IH" [OF False refl refl refl all cu e] False
    show ?thesis by (simp add: scheduleUnits_enter)
  qed
next
  case (2 parse activityIndex currentUnit units unitIndex st)
  show ?case
  proof (cases "length (u_activities currentUnit) \<le> activityIndex")
    case True
    from "2.IH"(1) [OF True "2.prems"(1)] True
    show ?thesis by (simp add: scheduleActivities_next)
  next
    case False
    then have "u_activities currentUnit ! activityIndex \<in> set (u_activities currentUnit)"
      by simp
    with "2.prems"(2)
    have "\<forall>c \<in> set (ag_courses (u_activities currentUnit ! activityIndex)). tryable parse st c"
      by blast
    from "2.IH"(2) [OF False "2.prems" this] False
    show ?thesis by (simp add: scheduleActivities_candidates)
  qed
next
  case (3 parse activityIndex currentUnit units unitIndex st)
  show ?case by (rule exI [of _ "(False, st)"]) simp
next
  case (4 parse course rest activityIndex currentUnit units unitIndex st)
  from "4.prems"(4) have "tryable parse st course" by simp
  then obtain s e sts where p: "parse (time course) = Inr (s, e)"
    and t: "map_of (scheduledTimesPerDay st) (day course) = Some sts"
    unfolding tryable_def
    by (metis map_of_eq_None_iff not_None_eq prod.exhaust_sel set_map)
  from "4.prems"(4) have rest: "\<forall>c \<in> set rest. tryable parse st c" by simp
  show ?case
  proof (cases "hasTimeConflict sts s e")
    case True
    then have "\<not> \<not> hasTimeConflict sts s e" by simp
    from "4.IH"(3) [OF p refl t this "4.prems"(1,2,3) rest] p t True
    show ?thesis by simp
  next
    case False
    from "4.prems"(3) t obtain st1 where
      commit: "scheduleCourse (u_unitCode currentUnit) course s e (day course) st = Inr st1"
      using scheduleCourse_no_error [of st "u_unitCode currentUnit" "day course" course s e]
      by auto
    have k1: "tryable parse st1 = tryable parse st"
      using scheduleCourse_keys [OF commit] by (rule tryable_keys)
    have e1: "map_of (finalSchedule st1) (u_unitCode currentUnit) \<noteq> None"
      using commit by (auto elim!: scheduleCourse_Inr simp: update_conv')
    from "4.IH"(1) [OF p refl t False commit] "4.prems"(1,2) e1
    obtain r where "scheduleActivities parse (activityIndex + 1) currentUnit units unitIndex st1
        = Inr r"
      by (auto simp: k1)
    then obtain ok st2 where
      rec: "scheduleActivities parse (activityIndex + 1) currentUnit units unitIndex st1
        = Inr (ok, st2)"
      by (cases r) auto
    show ?thesis
    proof (cases ok)
      case True
      with p t False commit rec show ?thesis by auto
    next
      case notok: False
      with rec have rec': "scheduleActivities parse (activityIndex + 1) currentUnit units
          unitIndex st1 = Inr (False, st2)"
        by simp
      have r12: "restored (drop (unitIndex + 1) units) st1 st2"
        using rec' by (rule search_restores)
      have e2: "map_of (finalSchedule st2) (u_unitCode currentUnit) \<noteq> None"
        using r12 e1 by (rule restored_entry)
      have t2: "map_of (scheduledTimesPerDay st2) (day course) \<noteq> None"
        using r12 commit by (auto elim!: scheduleCourse_Inr simp: restored_def update_conv')
      from e2 t2 obtain st3 where
        uncommit: "unscheduleCourse (u_unitCode currentUnit) (day course) st2 = Inr st3"
        using unscheduleCourse_no_error by blast
      have "restored (drop (unitIndex + 1) units) st st3"
        using commit r12 uncommit by (rule restored_uncommit)
      then have "scheduledTimesPerDay st3 = scheduledTimesPerDay st"
        and e3: "map_of (finalSchedule st3) (u_unitCode currentUnit) \<noteq> None"
        using "4.prems"(3) restored_entry by (simp_all add: restored_def)
      then have k3: "tryable parse st3 = tryable parse st"
        by (simp add: tryable_def fun_eq_iff)
      from "4.IH"(2) [OF p refl t False commit rec' refl refl uncommit]
        "4.prems"(1,2) e3 rest
      have "\<exists>r. tryCourses parse rest activityIndex currentUnit units unitIndex st3 = Inr r"
        by (simp add: k3)
      with p t False commit rec' uncommit show ?thesis by auto
    qed
  qed
qed

lemma filterCourseList_no_error:
  assumes wf: "\<forall>(code, unitData) \<in> set courseList. \<forall>c \<in> set (ud_courses unitData).
      (\<exists>s e. parseCourseTimes (time c) = Inr (s, e))
      \<and> day c \<in> set [''MON'', ''TUE'', ''WED'', ''THU'', ''FRI'']
      \<and> activity c \<notin> set objectPrototypeKeys"
  shows "filterCourseList courseList start end' days classesPerDay backToBack = Inr None
    \<or> (\<exists>sched. filterCourseList courseList start end' days classesPerDay backToBack
                  = Inr (Some sched))"
proof -
  from wf have "\<forall>entry \<in> set (objectEntries courseList). \<forall>c \<in> set (ud_courses (snd entry)).
             activity c \<notin> set objectPrototypeKeys"
    by auto
  then obtain units0 where b: "buildUnits (objectEntries courseList) = Inr units0"
    using buildUnits_no_error by blast
  have all: "list_all2 (\<lambda>entry unit. u_unitName unit = ud_unitName (snd entry)
            \<and> u_unitCode unit = fst entry
            \<and> grouped (ud_courses (snd entry)) (u_activities unit))
          (objectEntries courseList) units0"
    using b by (rule buildUnits_all)
  have "tryable parseCourseTimes initialState c"
    if "unit \<in> set (sortUnits units0)" "g \<in> set (u_activities unit)" "c \<in> set (ag_courses g)"
    for unit g c
  proof -
    from that(1) obtain i where i: "i < length units0" "units0 ! i = unit"
      by (metis in_set_conv_nth set_sortUnits)
    from all i(1) have il: "i < length (objectEntries courseList)"
      by (simp add: list_all2_lengthD)
    from list_all2_nthD [OF all il] i(2)
    have "grouped (ud_courses (snd (objectEntries courseList ! i))) (u_activities unit)"
      by simp
    with that(2,3) have c: "c \<in> set (ud_courses (snd (objectEntries courseList ! i)))"
      unfolding grouped_def by blast
    from il have "objectEntries courseList ! i \<in> set (objectEntries courseList)"
      by (rule nth_mem)
    then have "objectEntries courseList ! i \<in> set courseList" by simp
    with wf c have "(\<exists>s e. parseCourseTimes (time c) = Inr (s, e))
      \<and> day c \<in> set [''MON'', ''TUE'', ''WED'', ''THU'', ''FRI'']"
      by (cases "objectEntries courseList ! i") auto
    then show ?thesis
      by (auto simp: tryable_def initialState_def initialTimes_def)
  qed
  then have "\<forall>unit \<in> set (sortUnits units0). \<forall>g \<in> set (u_activities unit).
      \<forall>c \<in> set (ag_courses g). tryable parseCourseTimes initialState c"
    by blast
  then obtain r where "scheduleUnits parseCourseTimes 0 (sortUnits units0) initialState = Inr r"
    using search_no_error(1) by blast
  with b show ?thesis
    by (cases r) (simp add: filterCourseList_def initialState_def)
qed

lemma filterCourseList_empty:
  "filterCourseList [] start end' days classesPerDay backToBack = Inr (Some [])"
  by (simp add: filterCourseList_def objectEntries_def sortUnits_def sortBy_def
        scheduleUnits.simps)

text \<open>
  C7 (as amended). For a course list in which every session has a time text that parses,
  a day tag among MON, TUE, WED, THU and FRI and an activity tag that does not name a
  property every object inherits: when no full assignment is free of conflicts,
  filterCourseList returns null, and throws nothing. Null is not the empty mapping, which
  is what the empty course list gets.
\<close>

theorem infeasible_is_null:
  assumes "distinct (map fst courseList)"
    and "\<forall>(code, unitData) \<in> set courseList. \<forall>c \<in> set (ud_courses unitData).
      (\<exists>s e. parseCourseTimes (time c) = Inr (s, e))
      \<and> day c \<in> set [''MON'', ''TUE'', ''WED'', ''THU'', ''FRI'']
      \<and> activity c \<notin> set objectPrototypeKeys"
    and "\<not> (\<exists>sched. fullAssignment courseList sched \<and> noOverlap parseCourseTimes sched)"
  shows "filterCourseList courseList start end' days classesPerDay backToBack = Inr None
    \<and> Inr None \<noteq> (Inr (Some []) :: error + FilteredCourseList option)
    \<and> filterCourseList [] start end' days classesPerDay backToBack = Inr (Some [])"
proof -
  have "filterCourseList courseList start end' days classesPerDay backToBack \<noteq> Inr (Some sched)"
    for sched
  proof
    assume run: "filterCourseList courseList start end' days classesPerDay backToBack
      = Inr (Some sched)"
    have "fullAssignment courseList sched"
      unfolding fullAssignment_def
    proof (intro ballI, clarify)
      fix code unitData
      assume "(code, unitData) \<in> set courseList"
      from filterCourseList_unitDone [OF assms(1) run this]
      show "\<exists>entry. map_of sched code = Some entry
          \<and> set (ud_courses entry) \<subseteq> set (ud_courses unitData)
          \<and> distinct (map activity (ud_courses entry))
          \<and> set (map activity (ud_courses entry)) = set (map activity (ud_courses unitData))"
        by auto
    qed
    moreover have "noOverlap parseCourseTimes sched"
      using run by (rule filterCourseList_noOverlap)
    ultimately show False using assms(3) by blast
  qed
  with filterCourseList_no_error [OF assms(2)]
  have "filterCourseList courseList start end' days classesPerDay backToBack = Inr None"
    by blast
  then show ?thesis by (simp add: filterCourseList_empty)
qed

lemma no_assignment_for_clash:
  assumes tags: "activity c1 \<noteq> activity c2" and days: "day c1 = day c2"
    and p1: "parseCourseTimes (time c1) = Inr (s1, e1)"
    and p2: "parseCourseTimes (time c2) = Inr (s2, e2)"
    and clash: "dateLt s1 e2" "dateGt e1 s2"
  shows "\<not> (\<exists>sched. fullAssignment (singleUnit [c1, c2]) sched
              \<and> noOverlap parseCourseTimes sched)"
proof
  assume "\<exists>sched. fullAssignment (singleUnit [c1, c2]) sched \<and> noOverlap parseCourseTimes sched"
  then obtain sched where full: "fullAssignment (singleUnit [c1, c2]) sched"
    and no: "noOverlap parseCourseTimes sched"
    by blast
  from full obtain entry where e: "map_of sched ''CS101'' = Some entry"
    and sub: "set (ud_courses entry) \<subseteq> {c1, c2}"
    and tagset: "set (map activity (ud_courses entry)) = {activity c1, activity c2}"
    by (auto simp: fullAssignment_def singleUnit_def)
  let ?cs = "ud_courses entry"
  from tagset have "activity c1 \<in> activity ` set ?cs" "activity c2 \<in> activity ` set ?cs"
    by simp_all
  then obtain x y where xy: "x \<in> set ?cs" "activity x = activity c1"
    "y \<in> set ?cs" "activity y = activity c2"
    by (metis imageE)
  with sub tags have m1: "c1 \<in> set ?cs" and m2: "c2 \<in> set ?cs" by auto
  from m1 obtain i1 where i1: "i1 < length ?cs" "?cs ! i1 = c1" by (auto simp: in_set_conv_nth)
  from m2 obtain i2 where i2: "i2 < length ?cs" "?cs ! i2 = c2" by (auto simp: in_set_conv_nth)
  from i1 i2 tags have ne: "(''CS101'', i1) \<noteq> (''CS101'', i2)" by auto
  have c: "coursesOf sched ''CS101'' = ?cs" using e by (simp add: coursesOf_def)
  from no have "i1 < length (coursesOf sched ''CS101'') \<longrightarrow>
        i2 < length (coursesOf sched ''CS101'') \<longrightarrow>
        (''CS101'', i1) \<noteq> (''CS101'', i2) \<longrightarrow>
        day (coursesOf sched ''CS101'' ! i1) = day (coursesOf sched ''CS101'' ! i2) \<longrightarrow>
        (\<exists>s1 e1 s2 e2.
           parseCourseTimes (time (coursesOf sched ''CS101'' ! i1)) = Inr (s1, e1)
         \<and> parseCourseTimes (time (coursesOf sched ''CS101'' ! i2)) = Inr (s2, e2)
         \<and> \<not> (dateLt s1 e2 \<and> dateGt e1 s2))"
    unfolding noOverlap_def by blast
  with i1 i2 ne days c p1 p2 clash show False by auto
qed

lemma clash_lec: "parseCourseTimes (time (session ''CS101'' ''1'' ''LEC'' d ''9:00am - 10:00am''))
    = Inr (Some 32400000, Some 36000000)"
  by (simp add: session_def parse_9_10)

lemma clash_tut: "parseCourseTimes (time (session ''CS101'' ''2'' ''TUT'' d ''9:00am - 10:00am''))
    = Inr (Some 32400000, Some 36000000)"
  by (simp add: session_def parse_9_10)

lemma clash_none:
  "\<not> (\<exists>sched. fullAssignment
          (singleUnit [session ''CS101'' ''1'' ''LEC'' d ''9:00am - 10:00am'',
                       session ''CS101'' ''2'' ''TUT'' d ''9:00am - 10:00am'']) sched
        \<and> noOverlap parseCourseTimes sched)"
  by (rule no_assignment_for_clash [OF _ _ clash_lec clash_tut])
     (simp_all add: session_def dateLt_def dateGt_def)

text \<open>
  The scenario of the specification: one unit with two activities of one session each,
  both on Monday 9 to 10.
\<close>

theorem infeasible_is_null_witness:
  "filterCourseList
     (singleUnit [session ''CS101'' ''1'' ''LEC'' ''MON'' ''9:00am - 10:00am'',
                  session ''CS101'' ''2'' ''TUT'' ''MON'' ''9:00am - 10:00am'']) [] [] [] 0 False
     = Inr None"
proof -
  let ?cl = "singleUnit [session ''CS101'' ''1'' ''LEC'' ''MON'' ''9:00am - 10:00am'',
                  session ''CS101'' ''2'' ''TUT'' ''MON'' ''9:00am - 10:00am'']"
  have d: "distinct (map fst ?cl)" by (simp add: singleUnit_def)
  have tag: "activity (session ''CS101'' n t ''MON'' ''9:00am - 10:00am'') = t" for n t
    by (simp add: session_def)
  have dy: "day (session ''CS101'' n t ''MON'' ''9:00am - 10:00am'') = ''MON''" for n t
    by (simp add: session_def)
  have wf: "\<forall>(code, unitData) \<in> set ?cl. \<forall>c \<in> set (ud_courses unitData).
      (\<exists>s e. parseCourseTimes (time c) = Inr (s, e))
      \<and> day c \<in> set [''MON'', ''TUE'', ''WED'', ''THU'', ''FRI'']
      \<and> activity c \<notin> set objectPrototypeKeys"
    by (simp add: singleUnit_def clash_lec clash_tut tag dy objectPrototypeKeys_def)
  from infeasible_is_null [OF d wf clash_none] show ?thesis by blast
qed

text \<open>
  The same two sessions on Saturday: the time texts parse and no full assignment is free
  of conflicts, but the result is a TypeError, not null.
\<close>

theorem infeasible_on_saturday:
  "filterCourseList
     (singleUnit [session ''CS101'' ''1'' ''LEC'' ''SAT'' ''9:00am - 10:00am'',
                  session ''CS101'' ''2'' ''TUT'' ''SAT'' ''9:00am - 10:00am'']) [] [] [] 0 False
     = Inl TypeError
   \<and> \<not> (\<exists>sched. fullAssignment
            (singleUnit [session ''CS101'' ''1'' ''LEC'' ''SAT'' ''9:00am - 10:00am'',
                         session ''CS101'' ''2'' ''TUT'' ''SAT'' ''9:00am - 10:00am'']) sched
          \<and> noOverlap parseCourseTimes sched)
   \<and> parseCourseTimes (time (session ''CS101'' ''1'' ''LEC'' ''SAT'' ''9:00am - 10:00am''))
       = Inr (Some 32400000, Some 36000000)
   \<and> parseCourseTimes (time (session ''CS101'' ''2'' ''TUT'' ''SAT'' ''9:00am - 10:00am''))
       = Inr (Some 32400000, Some 36000000)"
proof -
  have "filterCourseList
     (singleUnit [session ''CS101'' ''1'' ''LEC'' ''SAT'' ''9:00am - 10:00am'',
                  session ''CS101'' ''2'' ''TUT'' ''SAT'' ''9:00am - 10:00am'']) [] [] [] 0 False
     = Inl TypeError"
    by code_simp
  with clash_none [of "''SAT''"] clash_lec [of "''SAT''"] clash_tut [of "''SAT''"]
  show ?thesis by blast
qed

subsection \<open>The index and the schedule hold the same intervals\<close>

lemma mset_concat_update:
  assumes "map_of al k = Some v"
  shows "mset (concat (map f (AList.update k v' al))) + mset (f (k, v))
           = mset (concat (map f al)) + mset (f (k, v'))"
  using assms
proof (induction al)
  case Nil
  then show ?case by simp
next
  case (Cons p ps)
  show ?case
  proof (cases "fst p = k")
    case True
    with Cons.prems have "p = (k, v)" by (cases p) simp
    then show ?thesis by simp
  next
    case False
    with Cons.prems have "map_of ps k = Some v" by (cases p) auto
    from Cons.IH [OF this] False show ?thesis by simp
  qed
qed

lemma mset_concat_update_new:
  assumes "map_of al k = None"
  shows "mset (concat (map f (AList.update k v' al))) = mset (concat (map f al)) + mset (f (k, v'))"
  using assms
proof (induction al)
  case Nil
  then show ?case by simp
next
  case (Cons p ps)
  then show ?case by (cases p) (auto split: if_splits)
qed

lemma committedIntervals_alt:
  "committedIntervals parse fs
     = concat (map (\<lambda>kv. map (intervalFor parse (fst kv)) (ud_courses (snd kv))) fs)"
  by (simp add: committedIntervals_def)

lemma indexMatches_initialize:
  assumes m: "indexMatches parse st"
    and e: "coursesOf (finalSchedule st) (u_unitCode unit) = []"
  shows "indexMatches parse (initializeUnitSchedule unit st)"
proof -
  let ?f = "\<lambda>kv. map (intervalFor parse (fst kv)) (ud_courses (snd kv))"
  let ?new = "\<lparr>ud_unitName = u_unitName unit, ud_courses = []\<rparr>"
  have "mset (concat (map ?f (AList.update (u_unitCode unit) ?new (finalSchedule st))))
          = mset (concat (map ?f (finalSchedule st)))"
  proof (cases "map_of (finalSchedule st) (u_unitCode unit)")
    case None
    from mset_concat_update_new [OF this, of ?f ?new] show ?thesis by simp
  next
    case (Some old)
    with e have "ud_courses old = []" by (simp add: coursesOf_def)
    with mset_concat_update [OF Some, of ?f ?new] show ?thesis by simp
  qed
  with m show ?thesis
    by (simp add: indexMatches_def committedIntervals_alt initializeUnitSchedule_def)
qed

lemma indexMatches_commit:
  assumes m: "indexMatches parse st"
    and p: "parse (time c) = Inr (s, e)"
    and commit: "scheduleCourse code c s e (day c) st = Inr st1"
  shows "indexMatches parse st1"
proof -
  let ?f = "\<lambda>kv. map (intervalFor parse (fst kv)) (ud_courses (snd kv))"
  let ?g = "\<lambda>kv. map (\<lambda>x. (fst kv, Some x)) (snd kv)"
  let ?x = "\<lparr>st_start = s, st_end = e, st_unitCode = code, st_activity = activity c\<rparr>"
  from commit obtain entry sts where
    en: "map_of (finalSchedule st) code = Some entry"
    and t: "map_of (scheduledTimesPerDay st) (day c) = Some sts"
    and f1: "finalSchedule st1
       = AList.update code (entry\<lparr>ud_courses := ud_courses entry @ [c]\<rparr>) (finalSchedule st)"
    and t1: "scheduledTimesPerDay st1 = AList.update (day c) (sts @ [?x]) (scheduledTimesPerDay st)"
    by (rule scheduleCourse_Inr)
  have iv: "intervalFor parse code c = (day c, Some ?x)"
    using p by (simp add: intervalFor_def)
  from mset_concat_update [OF en, of ?f "entry\<lparr>ud_courses := ud_courses entry @ [c]\<rparr>"]
  have a: "mset (committedIntervals parse (finalSchedule st1))
             = mset (committedIntervals parse (finalSchedule st)) + {#(day c, Some ?x)#}"
    by (simp add: committedIntervals_alt f1 iv)
  from mset_concat_update [OF t, of ?g "sts @ [?x]"]
  have b: "mset (indexedIntervals (scheduledTimesPerDay st1))
             = mset (indexedIntervals (scheduledTimesPerDay st)) + {#(day c, Some ?x)#}"
    by (simp add: indexedIntervals_def t1)
  from m a b show ?thesis by (simp add: indexMatches_def)
qed

lemma indexMatches_uncommit:
  assumes m: "indexMatches parse st2"
    and p: "parse (time c) = Inr (s, e)"
    and en: "map_of (finalSchedule st2) code = Some entry2" "ud_courses entry2 = cs @ [c]"
    and t: "map_of (scheduledTimesPerDay st2) (day c)
              = Some (sts @ [\<lparr>st_start = s, st_end = e, st_unitCode = code,
                                st_activity = activity c\<rparr>])"
    and uncommit: "unscheduleCourse code (day c) st2 = Inr st3"
  shows "indexMatches parse st3"
proof -
  let ?f = "\<lambda>kv. map (intervalFor parse (fst kv)) (ud_courses (snd kv))"
  let ?g = "\<lambda>kv. map (\<lambda>x. (fst kv, Some x)) (snd kv)"
  let ?x = "\<lparr>st_start = s, st_end = e, st_unitCode = code, st_activity = activity c\<rparr>"
  from uncommit en(1) t have
    f3: "finalSchedule st3
       = AList.update code (entry2\<lparr>ud_courses := butlast (ud_courses entry2)\<rparr>) (finalSchedule st2)"
    and t3: "scheduledTimesPerDay st3
       = AList.update (day c) (butlast (sts @ [?x])) (scheduledTimesPerDay st2)"
    by (auto elim!: unscheduleCourse_Inr)
  have iv: "intervalFor parse code c = (day c, Some ?x)"
    using p by (simp add: intervalFor_def)
  from mset_concat_update [OF en(1), of ?f "entry2\<lparr>ud_courses := butlast (ud_courses entry2)\<rparr>"]
  have a: "mset (committedIntervals parse (finalSchedule st3)) + {#(day c, Some ?x)#}
             = mset (committedIntervals parse (finalSchedule st2))"
    by (simp add: committedIntervals_alt f3 iv en(2))
  from mset_concat_update [OF t, of ?g "butlast (sts @ [?x])"]
  have b: "mset (indexedIntervals (scheduledTimesPerDay st3)) + {#(day c, Some ?x)#}
             = mset (indexedIntervals (scheduledTimesPerDay st2))"
    by (simp add: indexedIntervals_def t3)
  from m a b have "mset (committedIntervals parse (finalSchedule st3)) + {#(day c, Some ?x)#}
      = mset (indexedIntervals (scheduledTimesPerDay st3)) + {#(day c, Some ?x)#}"
    by (simp add: indexMatches_def)
  then show ?thesis by (simp add: indexMatches_def)
qed

lemma laterEmpty_restored:
  assumes "restored later' st st'" "laterEmpty later st"
  shows "laterEmpty later st'"
  unfolding laterEmpty_def
proof
  fix unit
  assume "unit \<in> set later"
  with assms(2) have "coursesOf (finalSchedule st) (u_unitCode unit) = []"
    by (simp add: laterEmpty_def)
  with restored_coursesOf [OF assms(1), of "u_unitCode unit"]
  show "coursesOf (finalSchedule st') (u_unitCode unit) = []" by auto
qed

lemma laterEmpty_commit:
  assumes "laterEmpty later st" "code \<notin> u_unitCode ` set later"
    and "scheduleCourse code c s e d st = Inr st1"
  shows "laterEmpty later st1"
  using assms scheduleCourse_coursesOf [OF assms(3)]
  by (auto simp: laterEmpty_def)

text \<open>
  The state after a commit, and the state after the uncommit that follows a failed call.
\<close>

lemma commit_matches:
  assumes "indexMatches parse st" "laterEmpty later st" "code \<notin> u_unitCode ` set later"
    and "parse (time c) = Inr (s, e)"
    and "scheduleCourse code c s e (day c) st = Inr st1"
  shows "indexMatches parse st1" "laterEmpty later st1"
  using assms indexMatches_commit laterEmpty_commit by blast+

lemma backtrack_matches:
  assumes le: "laterEmpty later st" and notin: "code \<notin> u_unitCode ` set later"
    and p: "parse (time c) = Inr (s, e)"
    and commit: "scheduleCourse code c s e (day c) st = Inr st1"
    and r: "restored later st1 st2"
    and m2: "indexMatches parse st2"
    and uncommit: "unscheduleCourse code (day c) st2 = Inr st3"
  shows "indexMatches parse st3" "laterEmpty later st3"
proof -
  let ?x = "\<lparr>st_start = s, st_end = e, st_unitCode = code, st_activity = activity c\<rparr>"
  from commit obtain entry sts where
    f1: "map_of (finalSchedule st1) code = Some (entry\<lparr>ud_courses := ud_courses entry @ [c]\<rparr>)"
    and t1: "map_of (scheduledTimesPerDay st1) (day c) = Some (sts @ [?x])"
    by (auto elim!: scheduleCourse_Inr simp: update_conv')
  from r notin have "map_of (finalSchedule st2) code = map_of (finalSchedule st1) code"
    unfolding restored_def by blast
  with f1 have e2: "map_of (finalSchedule st2) code
      = Some (entry\<lparr>ud_courses := ud_courses entry @ [c]\<rparr>)"
    by simp
  from r t1 have t2: "map_of (scheduledTimesPerDay st2) (day c) = Some (sts @ [?x])"
    by (simp add: restored_def)
  show "indexMatches parse st3"
    using m2 p e2 _ t2 uncommit by (rule indexMatches_uncommit) simp
  have "restored later st st3" using commit r uncommit by (rule restored_uncommit)
  then show "laterEmpty later st3" using le by (rule laterEmpty_restored)
qed

lemma logUnits_finished: "length units \<le> u \<Longrightarrow> logUnits parse u units st = []"
  by (subst logUnits.simps) simp

lemma search_matches:
  "indexMatches parse st \<Longrightarrow> laterEmpty (drop u units) st
     \<Longrightarrow> distinct (map u_unitCode (drop u units))
     \<Longrightarrow> (\<forall>ev \<in> set (logUnits parse u units st). indexMatches parse (stateOf ev))
         \<and> (\<forall>ok st'. scheduleUnits parse u units st = Inr (ok, st')
                \<longrightarrow> indexMatches parse st')"
  "indexMatches parse st \<Longrightarrow> laterEmpty (drop (u + 1) units) st
     \<Longrightarrow> distinct (map u_unitCode (drop (u + 1) units))
     \<Longrightarrow> u_unitCode cu \<notin> u_unitCode ` set (drop (u + 1) units)
     \<Longrightarrow> (\<forall>ev \<in> set (logActivities parse a cu units u st). indexMatches parse (stateOf ev))
         \<and> (\<forall>ok st'. scheduleActivities parse a cu units u st = Inr (ok, st')
                \<longrightarrow> indexMatches parse st')"
  "indexMatches parse st \<Longrightarrow> laterEmpty (drop (u + 1) units) st
     \<Longrightarrow> distinct (map u_unitCode (drop (u + 1) units))
     \<Longrightarrow> u_unitCode cu \<notin> u_unitCode ` set (drop (u + 1) units)
     \<Longrightarrow> (\<forall>ev \<in> set (logCourses parse cands a cu units u st). indexMatches parse (stateOf ev))
         \<and> (\<forall>ok st'. tryCourses parse cands a cu units u st = Inr (ok, st')
                \<longrightarrow> indexMatches parse st')"
proof (induction parse u units st and parse a cu units u st and parse cands a cu units u st
       rule: scheduleUnits_scheduleActivities_tryCourses.induct)
  case (1 parse unitIndex units st)
  show ?case
  proof (cases "length units \<le> unitIndex")
    case True
    then have "scheduleUnits parse unitIndex units st = Inr (True, st)"
      by (subst scheduleUnits.simps) simp
    with True "1.prems"(1) show ?thesis by (simp add: logUnits_finished)
  next
    case False
    let ?cu = "units ! unitIndex"
    let ?sorted = "?cu\<lparr>u_activities := sortActivitiesByCourseOptions (u_activities ?cu)\<rparr>"
    let ?st1 = "initializeUnitSchedule ?cu st"
    from False have dr: "drop unitIndex units = ?cu # drop (unitIndex + 1) units"
      by (simp add: Cons_nth_drop_Suc)
    with "1.prems"(3) have d': "distinct (map u_unitCode (drop (unitIndex + 1) units))"
      and notin: "u_unitCode ?sorted \<notin> u_unitCode ` set (drop (unitIndex + 1) units)"
      by auto
    from "1.prems"(2) dr have "coursesOf (finalSchedule st) (u_unitCode ?cu) = []"
      by (simp add: laterEmpty_def)
    with "1.prems"(1) have m1: "indexMatches parse ?st1" by (rule indexMatches_initialize)
    have le1: "laterEmpty (drop (unitIndex + 1) units) ?st1"
      using "1.prems"(2) dr
      by (auto simp: laterEmpty_def initializeUnitSchedule_def coursesOf_update)
    from "1.IH" [OF False refl refl refl m1 le1 d' notin]
    have inner: "\<forall>ev \<in> set (logActivities parse 0 ?sorted units unitIndex ?st1).
        indexMatches parse (stateOf ev)"
      and res: "\<forall>ok st'. scheduleActivities parse 0 ?sorted units unitIndex ?st1 = Inr (ok, st')
                \<longrightarrow> indexMatches parse st'"
      by blast+
    have "indexMatches parse (stateOf ev)" if "ev \<in> set (logUnits parse unitIndex units st)" for ev
      using that
    proof (cases rule: logUnits_memE)
      case entered
      with m1 show ?thesis by simp
    next
      case inner': inner
      with inner show ?thesis by blast
    qed
    moreover from False res
    have "\<forall>ok st'. scheduleUnits parse unitIndex units st = Inr (ok, st')
                \<longrightarrow> indexMatches parse st'"
      by (simp add: scheduleUnits_enter)
    ultimately show ?thesis by blast
  qed
next
  case (2 parse activityIndex currentUnit units unitIndex st)
  show ?case
  proof (cases "length (u_activities currentUnit) \<le> activityIndex")
    case True
    have d: "distinct (map u_unitCode (drop (unitIndex + 1) units))" using "2.prems"(3) .
    from "2.IH"(1) [OF True "2.prems"(1,2) d] True
    show ?thesis
      by (subst logActivities.simps) (simp add: scheduleActivities_next)
  next
    case False
    from "2.IH"(2) [OF False "2.prems"] False
    show ?thesis
      by (subst logActivities.simps) (simp add: scheduleActivities_candidates)
  qed
next
  case (3 parse activityIndex currentUnit units unitIndex st)
  then show ?case by simp
next
  case (4 parse course rest activityIndex currentUnit units unitIndex st)
  let ?later = "drop (unitIndex + 1) units"
  note m = "4.prems"(1) and le = "4.prems"(2) and d = "4.prems"(3) and notin = "4.prems"(4)
  have inner: "(\<forall>ev \<in> set (logActivities parse (activityIndex + 1) currentUnit units unitIndex st1).
          indexMatches parse (stateOf ev))
        \<and> (\<forall>ok st'. scheduleActivities parse (activityIndex + 1) currentUnit units unitIndex st1
                = Inr (ok, st') \<longrightarrow> indexMatches parse st')"
    if "parse (time course) = Inr (s, e)"
      "map_of (scheduledTimesPerDay st) (day course) = Some sts"
      "\<not> hasTimeConflict sts s e"
      "scheduleCourse (u_unitCode currentUnit) course s e (day course) st = Inr st1"
    for s e sts st1
    using "4.IH"(1) [OF that(1) refl that(2,3,4)]
      commit_matches [OF m le notin that(1,4)] d notin
    by blast
  have after: "indexMatches parse st3 \<and> laterEmpty ?later st3"
    if "parse (time course) = Inr (s, e)"
      "map_of (scheduledTimesPerDay st) (day course) = Some sts"
      "\<not> hasTimeConflict sts s e"
      "scheduleCourse (u_unitCode currentUnit) course s e (day course) st = Inr st1"
      "scheduleActivities parse (activityIndex + 1) currentUnit units unitIndex st1
         = Inr (False, st2)"
      "unscheduleCourse (u_unitCode currentUnit) (day course) st2 = Inr st3"
    for s e sts st1 st2 st3
  proof -
    have r: "restored ?later st1 st2" using that(5) by (rule search_restores)
    from inner [OF that(1,2,3,4)] that(5) have m2: "indexMatches parse st2" by blast
    from backtrack_matches [OF le notin that(1,4) r m2 that(6)] show ?thesis by blast
  qed
  have remaining: "(\<forall>ev \<in> set (logCourses parse rest activityIndex currentUnit units unitIndex st3).
          indexMatches parse (stateOf ev))
        \<and> (\<forall>ok st'. tryCourses parse rest activityIndex currentUnit units unitIndex st3
                = Inr (ok, st') \<longrightarrow> indexMatches parse st')"
    if "parse (time course) = Inr (s, e)"
      "map_of (scheduledTimesPerDay st) (day course) = Some sts"
      "\<not> hasTimeConflict sts s e"
      "scheduleCourse (u_unitCode currentUnit) course s e (day course) st = Inr st1"
      "scheduleActivities parse (activityIndex + 1) currentUnit units unitIndex st1
         = Inr (False, st2)"
      "unscheduleCourse (u_unitCode currentUnit) (day course) st2 = Inr st3"
    for s e sts st1 st2 st3
    using "4.IH"(2) [OF that(1) refl that(2,3,4,5) refl refl that(6)]
      after [OF that] d notin
    by blast
  have skipped: "(\<forall>ev \<in> set (logCourses parse rest activityIndex currentUnit units unitIndex st).
          indexMatches parse (stateOf ev))
        \<and> (\<forall>ok st'. tryCourses parse rest activityIndex currentUnit units unitIndex st
                = Inr (ok, st') \<longrightarrow> indexMatches parse st')"
    if "parse (time course) = Inr (s, e)"
      "map_of (scheduledTimesPerDay st) (day course) = Some sts"
      "hasTimeConflict sts s e"
    for s e sts
  proof -
    from that(3) have "\<not> \<not> hasTimeConflict sts s e" by simp
    from "4.IH"(3) [OF that(1) refl that(2) this m le d notin] show ?thesis .
  qed
  have "indexMatches parse (stateOf ev)"
    if "ev \<in> set (logCourses parse (course # rest) activityIndex currentUnit units unitIndex st)"
    for ev
    using that
  proof (cases rule: logCourses_Cons_memE)
    case tried
    with m show ?thesis by simp
  next
    case (conflict s e sts)
    with skipped [OF conflict(1,2,3)] show ?thesis by blast
  next
    case (committed s e sts st1)
    with commit_matches(1) [OF m le notin committed(1,4)] show ?thesis by simp
  next
    case inner': (inner s e sts st1)
    with inner [OF inner'(1,2,3,4)] show ?thesis by blast
  next
    case (uncommitted s e sts st1 st2 st3)
    with after [OF uncommitted(1,2,3,4,5,6)] show ?thesis by simp
  next
    case rest': (rest s e sts st1 st2 st3)
    with remaining [OF rest'(1,2,3,4,5,6)] show ?thesis by blast
  qed
  moreover have "indexMatches parse st'"
    if "tryCourses parse (course # rest) activityIndex currentUnit units unitIndex st
          = Inr (ok, st')"
    for ok st'
    using that
  proof (cases rule: tryCourses_Cons_InrE)
    case (conflict s e sts)
    with skipped [OF conflict(1,2,3)] show ?thesis by blast
  next
    case (commit s e sts st1)
    with inner [OF commit(1,2,3,4)] show ?thesis by blast
  next
    case (backtrack s e sts st1 st2 st3)
    with remaining [OF backtrack(1,2,3,4,5,6)] show ?thesis by blast
  qed
  ultimately show ?case by blast
qed

lemma indexMatches_initial: "indexMatches parse initialState"
  by (simp add: indexMatches_def initialState_def initialTimes_def committedIntervals_def
        indexedIntervals_def)

lemma laterEmpty_initial: "laterEmpty later initialState"
  by (simp add: laterEmpty_def initialState_def coursesOf_def)

text \<open>
  C6. In a run of filterCourseList, every state of the log (the state after each
  initialisation of a unit, the state in which each candidate is tried, the state after
  each commit and the state after each uncommit) and the state the search returns have
  the same intervals in the index as sessions in the schedule: the multiset of the
  intervals of the day arrays is the multiset of the intervals that commits record for
  the sessions of the course lists.
\<close>

theorem index_matches_schedule:
  assumes "distinct (map fst courseList)"
    and "buildUnits (objectEntries courseList) = Inr units0"
  shows "indexMatches parseCourseTimes initialState
    \<and> (\<forall>ev \<in> set (logUnits parseCourseTimes 0 (sortUnits units0) initialState).
          indexMatches parseCourseTimes (stateOf ev))
    \<and> (\<forall>ok st'. scheduleUnits parseCourseTimes 0 (sortUnits units0) initialState = Inr (ok, st')
          \<longrightarrow> indexMatches parseCourseTimes st')"
proof -
  have d: "distinct (map u_unitCode (drop 0 (sortUnits units0)))"
    using filterCourseList_units(1) [OF assms] by simp
  from search_matches(1) [OF indexMatches_initial laterEmpty_initial d] indexMatches_initial
  show ?thesis by blast
qed

text \<open>The theorem at the last commit of the run on \<open>twoUnits\<close>.\<close>

theorem index_matches_schedule_witness:
  "indexMatches parseCourseTimes stateBoth
   \<and> mset (indexedIntervals (scheduledTimesPerDay stateBoth))
       = {#(''MON'', Some \<lparr>st_start = Some 36000000, st_end = Some 39600000,
                          st_unitCode = ''B'', st_activity = ''LEC''\<rparr>),
           (''MON'', Some \<lparr>st_start = Some 32400000, st_end = Some 36000000,
                          st_unitCode = ''A'', st_activity = ''LEC''\<rparr>)#}"
proof -
  have d: "distinct (map fst twoUnits)" by (simp add: twoUnits_def)
  have b: "buildUnits (objectEntries twoUnits) = Inr twoUnitsBuilt" by code_simp
  have l: "Committed stateBoth
           \<in> set (logUnits parseCourseTimes 0 (sortUnits twoUnitsBuilt) initialState)"
    by code_simp
  from index_matches_schedule [OF d b] l
  have "indexMatches parseCourseTimes (stateOf (Committed stateBoth))" by blast
  then show ?thesis by (simp add: indexedIntervals_def stateBoth_def)
qed

subsection \<open>The log ends in the state the search returns\<close>

lemma last_Cons_Cons: "last (x # y # xs) = last (y # xs)"
  by simp

lemma log_ends_in_result:
  "scheduleUnits parse u units st = Inr (ok, st')
     \<Longrightarrow> last (st # map stateOf (logUnits parse u units st)) = st'"
  "scheduleActivities parse a cu units u st = Inr (ok, st')
     \<Longrightarrow> last (st # map stateOf (logActivities parse a cu units u st)) = st'"
  "tryCourses parse cands a cu units u st = Inr (ok, st')
     \<Longrightarrow> last (st # map stateOf (logCourses parse cands a cu units u st)) = st'"
proof (induction parse u units st and parse a cu units u st and parse cands a cu units u st
       arbitrary: ok st' and ok st' and ok st'
       rule: scheduleUnits_scheduleActivities_tryCourses.induct)
  case (1 parse unitIndex units st)
  from "1.prems" show ?case
  proof (cases rule: scheduleUnits_InrE)
    case finished
    then show ?thesis by (simp add: logUnits_finished)
  next
    case enter
    let ?cu = "units ! unitIndex"
    let ?sorted = "?cu\<lparr>u_activities := sortActivitiesByCourseOptions (u_activities ?cu)\<rparr>"
    let ?st1 = "initializeUnitSchedule ?cu st"
    from enter(1) have n: "\<not> length units \<le> unitIndex" by simp
    then have "logUnits parse unitIndex units st
        = Entered ?st1 # logActivities parse 0 ?sorted units unitIndex ?st1"
      by (subst logUnits.simps) (simp add: Let_def)
    with "1.IH" [OF n refl refl refl enter(2)] show ?thesis by simp
  qed
next
  case (2 parse activityIndex currentUnit units unitIndex st)
  from "2.prems" show ?case
  proof (cases rule: scheduleActivities_InrE)
    case next_unit
    from next_unit(1) have "logActivities parse activityIndex currentUnit units unitIndex st
        = logUnits parse (unitIndex + 1) units st"
      by (subst logActivities.simps) simp
    with "2.IH"(1) [OF next_unit(1,2)] show ?thesis by simp
  next
    case candidates
    from candidates(1) have n: "\<not> length (u_activities currentUnit) \<le> activityIndex" by simp
    then have "logActivities parse activityIndex currentUnit units unitIndex st
        = logCourses parse (ag_courses (u_activities currentUnit ! activityIndex))
            activityIndex currentUnit units unitIndex st"
      by (subst logActivities.simps) simp
    with "2.IH"(2) [OF n candidates(2)] show ?thesis by simp
  qed
next
  case (3 parse activityIndex currentUnit units unitIndex st)
  then show ?case by simp
next
  case (4 parse course rest activityIndex currentUnit units unitIndex st)
  from "4.prems" show ?case
  proof (cases rule: tryCourses_Cons_InrE)
    case (conflict s e sts)
    from conflict(3) have nn: "\<not> \<not> hasTimeConflict sts s e" by simp
    from conflict(1,2,3)
    have "logCourses parse (course # rest) activityIndex currentUnit units unitIndex st
        = Tried course st # logCourses parse rest activityIndex currentUnit units unitIndex st"
      by simp
    with "4.IH"(3) [OF conflict(1) refl conflict(2) nn conflict(4)] show ?thesis by simp
  next
    case (commit s e sts st1)
    from commit(1,2,3,4,5)
    have "logCourses parse (course # rest) activityIndex currentUnit units unitIndex st
        = Tried course st # Committed st1
          # logActivities parse (activityIndex + 1) currentUnit units unitIndex st1"
      by simp
    with "4.IH"(1) [OF commit(1) refl commit(2,3,4,5)] show ?thesis by simp
  next
    case (backtrack s e sts st1 st2 st3)
    from backtrack(1,2,3,4,5,6)
    have "logCourses parse (course # rest) activityIndex currentUnit units unitIndex st
        = Tried course st # Committed st1
          # logActivities parse (activityIndex + 1) currentUnit units unitIndex st1
          @ Uncommitted st3
            # logCourses parse rest activityIndex currentUnit units unitIndex st3"
      by simp
    with "4.IH"(2) [OF backtrack(1) refl backtrack(2,3,4,5) refl refl backtrack(6,7)]
    show ?thesis by simp
  qed
qed

subsection \<open>The order of the units and of the activities\<close>

lemma update_snd:
  "\<forall>kv \<in> set al. P (snd kv) \<Longrightarrow> P v \<Longrightarrow> \<forall>kv \<in> set (AList.update k v al). P (snd kv)"
  by (induction al) auto

lemma groupCourses_nonempty:
  assumes "groupCourses g0 courses = Inr g" "\<forall>kv \<in> set g0. snd kv \<noteq> []"
  shows "\<forall>kv \<in> set g. snd kv \<noteq> []"
  using assms
proof (induction courses arbitrary: g0)
  case Nil
  then show ?case by simp
next
  case (Cons c rest)
  show ?case
  proof (cases "map_of g0 (activity c)")
    case None
    with Cons.prems(1) have r: "groupCourses (AList.update (activity c) [c] g0) rest = Inr g"
      by (simp split: if_splits)
    have "\<forall>kv \<in> set (AList.update (activity c) [c] g0). snd kv \<noteq> []"
      using Cons.prems(2) by (rule update_snd) simp
    with r show ?thesis by (rule Cons.IH)
  next
    case (Some cs)
    with Cons.prems(1)
    have r: "groupCourses (AList.update (activity c) (cs @ [c]) g0) rest = Inr g"
      by simp
    have "\<forall>kv \<in> set (AList.update (activity c) (cs @ [c]) g0). snd kv \<noteq> []"
      using Cons.prems(2) by (rule update_snd) simp
    with r show ?thesis by (rule Cons.IH)
  qed
qed

lemma buildUnit_nonempty:
  assumes "buildUnit entry = Inr unit"
  shows "\<forall>a \<in> set (u_activities unit). ag_courses a \<noteq> []"
proof -
  from assms obtain g where g: "groupCourses [] (ud_courses (snd entry)) = Inr g"
    and unit: "u_activities unit = map (\<lambda>g. \<lparr>activityType = fst g, ag_courses = snd g\<rparr>)
                   (objectEntries g)"
    by (auto simp: buildUnit_def split: sum.splits)
  from groupCourses_nonempty [OF g] have "\<forall>kv \<in> set g. snd kv \<noteq> []" by simp
  with unit show ?thesis by auto
qed

lemma buildUnits_nonempty:
  assumes "buildUnits entries = Inr units"
  shows "\<forall>unit \<in> set units. \<forall>a \<in> set (u_activities unit). ag_courses a \<noteq> []"
  using assms
proof (induction entries arbitrary: units)
  case Nil
  then show ?case by simp
next
  case (Cons entry rest)
  then obtain unit units' where u: "buildUnit entry = Inr unit"
    and r: "buildUnits rest = Inr units'" and us: "units = unit # units'"
    by (auto split: sum.splits)
  from buildUnit_nonempty [OF u] Cons.IH [OF r] us show ?case by simp
qed

lemma sorted_units:
  assumes "\<forall>unit \<in> set units. optionCount unit \<noteq> NaN"
  shows "sorted_wrt (\<lambda>unitA unitB. numberLe (optionCount unitB) (optionCount unitA))
           (sortUnits units)"
proof -
  have "sorted (map descendingKey (sortUnits units))"
    by (simp add: sortUnits_sort_key [OF assms])
  then have "sorted_wrt (\<lambda>a b. descendingKey a \<le> descendingKey b) (sortUnits units)"
    by (simp add: sorted_map)
  then show ?thesis
  proof (rule sorted_wrt_mono_rel [rotated])
    fix a b assume "a \<in> set (sortUnits units)" "b \<in> set (sortUnits units)"
      and le: "descendingKey a \<le> descendingKey b"
    with assms have "optionCount a \<noteq> NaN" "optionCount b \<noteq> NaN" by auto
    with le show "numberLe (optionCount b) (optionCount a)"
      by (simp add: numberLe_rank descendingKey_le)
  qed
qed

lemma stable_units:
  assumes "\<forall>unit \<in> set units. optionCount unit \<noteq> NaN"
  shows "filter (\<lambda>u. optionCount u = k) (sortUnits units)
           = filter (\<lambda>u. optionCount u = k) units"
  using sort_key_stable [of descendingKey "(- fst (rank k), - snd (rank k))" units]
  by (simp add: sortUnits_sort_key [OF assms] descendingKey_eq)

lemma sorted_exact:
  assumes ne: "\<forall>unit \<in> set units. \<forall>a \<in> set (u_activities unit). ag_courses a \<noteq> []"
    and small: "\<forall>unit \<in> set units. exactCount unit \<le> 2 ^ 53"
  shows "sorted_wrt (\<lambda>unitA unitB. exactCount unitB \<le> exactCount unitA) (sortUnits units)"
proof -
  from ne have "\<forall>unit \<in> set units. optionCount unit \<noteq> NaN"
    by (simp add: optionCount_not_NaN)
  from sorted_units [OF this] show ?thesis
  proof (rule sorted_wrt_mono_rel [rotated])
    fix a b assume a: "a \<in> set (sortUnits units)" and b: "b \<in> set (sortUnits units)"
      and le: "numberLe (optionCount b) (optionCount a)"
    from a ne small have "optionCount a = Finite (int (exactCount a))"
      by (intro optionCount_exact) simp_all
    moreover from b ne small have "optionCount b = Finite (int (exactCount b))"
      by (intro optionCount_exact) simp_all
    ultimately show "exactCount b \<le> exactCount a" using le by simp
  qed
qed

text \<open>
  C8 (as amended). Units none of whose activities is empty - the units filterCourseList
  builds are such - are sorted in descending order of their option count as the code
  computes it: the product of the lengths of the course lists of the activities in
  double-precision arithmetic. That count is the exact product whenever the product is
  at most 2^53, so units whose products stay within that bound are in descending order of
  the product. The activities of a unit are sorted in ascending order of the length of
  their course list. Both sorts only reorder, and elements of equal count keep their
  relative order. filterCourseList sorts the units before it starts the search, and
  scheduleUnits sorts the activities of a unit before it schedules the first of them.
\<close>

theorem preprocessing_order:
  assumes "\<forall>unit \<in> set units0. \<forall>a \<in> set (u_activities unit). ag_courses a \<noteq> []"
  shows "mset (sortUnits units0) = mset units0
   \<and> sorted_wrt (\<lambda>unitA unitB. numberLe (optionCount unitB) (optionCount unitA))
       (sortUnits units0)
   \<and> filter (\<lambda>u. optionCount u = k) (sortUnits units0) = filter (\<lambda>u. optionCount u = k) units0
   \<and> (\<forall>unit \<in> set units0.
        exactCount unit \<le> 2 ^ 53 \<longrightarrow> optionCount unit = Finite (int (exactCount unit)))
   \<and> ((\<forall>unit \<in> set units0. exactCount unit \<le> 2 ^ 53)
        \<longrightarrow> sorted_wrt (\<lambda>unitA unitB. exactCount unitB \<le> exactCount unitA) (sortUnits units0))
   \<and> mset (sortActivitiesByCourseOptions activities) = mset activities
   \<and> sorted (map (\<lambda>a. length (ag_courses a)) (sortActivitiesByCourseOptions activities))
   \<and> filter (\<lambda>a. length (ag_courses a) = n) (sortActivitiesByCourseOptions activities)
       = filter (\<lambda>a. length (ag_courses a) = n) activities
   \<and> (buildUnits entries = Inr built
        \<longrightarrow> (\<forall>unit \<in> set built. \<forall>a \<in> set (u_activities unit). ag_courses a \<noteq> []))
   \<and> filterCourseList courseList start end' days classesPerDay backToBack
       = (case buildUnits (objectEntries courseList) of
            Inl err \<Rightarrow> Inl err
          | Inr built \<Rightarrow>
              (case scheduleUnits parseCourseTimes 0 (sortUnits built) initialState of
                 Inl err \<Rightarrow> Inl err
               | Inr (True, st) \<Rightarrow> Inr (Some (finalSchedule st))
               | Inr (False, st) \<Rightarrow> Inr None))
   \<and> scheduleUnits parse unitIndex units st
       = (if unitIndex \<ge> length units then Inr (True, st)
          else scheduleActivities parse 0
                 ((units ! unitIndex)
                    \<lparr>u_activities :=
                       sortActivitiesByCourseOptions (u_activities (units ! unitIndex))\<rparr>)
                 units unitIndex (initializeUnitSchedule (units ! unitIndex) st))"
proof -
  note ne = assms
  then have nn: "\<forall>unit \<in> set units0. optionCount unit \<noteq> NaN"
    by (simp add: optionCount_not_NaN)
  have desc: "sorted_wrt (\<lambda>unitA unitB. numberLe (optionCount unitB) (optionCount unitA))
       (sortUnits units0)"
    using nn by (rule sorted_units)
  have stable_u:
    "filter (\<lambda>u. optionCount u = k) (sortUnits units0) = filter (\<lambda>u. optionCount u = k) units0"
    using nn by (rule stable_units)
  have exact: "\<forall>unit \<in> set units0.
        exactCount unit \<le> 2 ^ 53 \<longrightarrow> optionCount unit = Finite (int (exactCount unit))"
    using ne by (simp add: optionCount_exact)
  have desc_exact: "(\<forall>unit \<in> set units0. exactCount unit \<le> 2 ^ 53)
        \<longrightarrow> sorted_wrt (\<lambda>unitA unitB. exactCount unitB \<le> exactCount unitA) (sortUnits units0)"
    using sorted_exact [OF ne] by blast
  have stable_a:
    "filter (\<lambda>a. length (ag_courses a) = n) (sortActivitiesByCourseOptions activities)
       = filter (\<lambda>a. length (ag_courses a) = n) activities"
    using sort_key_stable [of "\<lambda>a. length (ag_courses a)" n activities]
    by (simp add: sortActivities_sort_key)
  have asc: "sorted (map (\<lambda>a. length (ag_courses a)) (sortActivitiesByCourseOptions activities))"
    by (simp add: sortActivities_sort_key)
  have built: "buildUnits entries = Inr built
        \<longrightarrow> (\<forall>unit \<in> set built. \<forall>a \<in> set (u_activities unit). ag_courses a \<noteq> [])"
    using buildUnits_nonempty by blast
  have top: "filterCourseList courseList start end' days classesPerDay backToBack
       = (case buildUnits (objectEntries courseList) of
            Inl err \<Rightarrow> Inl err
          | Inr built \<Rightarrow>
              (case scheduleUnits parseCourseTimes 0 (sortUnits built) initialState of
                 Inl err \<Rightarrow> Inl err
               | Inr (True, st) \<Rightarrow> Inr (Some (finalSchedule st))
               | Inr (False, st) \<Rightarrow> Inr None))"
    by (simp add: filterCourseList_def initialState_def Let_def
             split: sum.splits prod.splits bool.splits)
  have enter: "scheduleUnits parse unitIndex units st
       = (if unitIndex \<ge> length units then Inr (True, st)
          else scheduleActivities parse 0
                 ((units ! unitIndex)
                    \<lparr>u_activities :=
                       sortActivitiesByCourseOptions (u_activities (units ! unitIndex))\<rparr>)
                 units unitIndex (initializeUnitSchedule (units ! unitIndex) st))"
    by (subst scheduleUnits.simps) (simp add: Let_def)
  from desc stable_u exact desc_exact stable_a asc built top enter show ?thesis
    by (simp only: mset_sortUnits mset_sortActivities simp_thms)
qed

text \<open>
  The theorem at the units built from \<open>twoUnits\<close>: unit B, with two combinations, comes
  before unit A, with one.
\<close>

theorem preprocessing_order_witness:
  "buildUnits (objectEntries twoUnits) = Inr twoUnitsBuilt
   \<and> list_all (\<lambda>unit. list_all (\<lambda>a. ag_courses a \<noteq> []) (u_activities unit)) twoUnitsBuilt
   \<and> list_all (\<lambda>unit. exactCount unit \<le> 2 ^ 53) twoUnitsBuilt
   \<and> sorted_wrt (\<lambda>unitA unitB. exactCount unitB \<le> exactCount unitA) (sortUnits twoUnitsBuilt)
   \<and> map u_unitCode (sortUnits twoUnitsBuilt) = [''B'', ''A'']"
proof -
  have b: "buildUnits (objectEntries twoUnits) = Inr twoUnitsBuilt" by code_simp
  have ne: "\<forall>unit \<in> set twoUnitsBuilt. \<forall>a \<in> set (u_activities unit). ag_courses a \<noteq> []"
    by (simp add: twoUnitsBuilt_def)
  have e: "\<forall>unit \<in> set twoUnitsBuilt. exactCount unit \<le> 2 ^ 53"
    by (simp add: twoUnitsBuilt_def exactCount_def)
  have s: "map u_unitCode (sortUnits twoUnitsBuilt) = [''B'', ''A'']" by code_simp
  from preprocessing_order [OF ne] b ne e s show ?thesis
    by (simp only: list_all_iff)
qed

text \<open>
  Unit Q has 3^34 - 1 combinations and unit P has 3^34; neither has an empty activity.
  Both counts are computed as the double 16677181699666568, the comparator returns 0,
  and the sort leaves Q before P: the units are not in descending order of the product.
\<close>

theorem rounded_counts_tie:
  "list_all (\<lambda>unit. list_all (\<lambda>a. ag_courses a \<noteq> []) (u_activities unit)) [unitQ, unitP]
   \<and> exactCount unitQ = 3 ^ 34 - 1
   \<and> exactCount unitP = 3 ^ 34
   \<and> optionCount unitQ = optionCount unitP
   \<and> sortUnits [unitQ, unitP] = [unitQ, unitP]
   \<and> \<not> sorted_wrt (\<lambda>unitA unitB. exactCount unitB \<le> exactCount unitA)
         (sortUnits [unitQ, unitP])"
proof -
  have "list_all (\<lambda>a. ag_courses a \<noteq> []) (u_activities unitQ)"
    by (simp add: unitQ_def sessions_def)
  moreover have "list_all (\<lambda>a. ag_courses a \<noteq> []) (u_activities unitP)"
    by (auto simp: unitP_def sessions_def list_all_iff)
  moreover have s: "sortUnits [unitQ, unitP] = [unitQ, unitP]"
    by (simp add: sortUnits_def sortBy_def compareUnits_def optionCount_unitQ optionCount_unitP
          roundToDouble_exact)
  moreover have "\<not> sorted_wrt (\<lambda>unitA unitB. exactCount unitB \<le> exactCount unitA)
         (sortUnits [unitQ, unitP])"
    by (simp add: s exactCount_unitQ exactCount_unitP)
  ultimately show ?thesis
    by (simp add: optionCount_unitQ optionCount_unitP exactCount_unitQ exactCount_unitP)
qed

end
